theory Spec2Isabelle
  imports Complex_Main "HOL-Library.Word" "HOL-Library.Code_Target_Numeral"
begin

section \<open>Audio Linguist: segmentation, extraction and WAV encoding\<close>

text \<open>
  A shallow embedding of the algorithmic core of \<^verbatim>\<open>audio-splitter.js\<close>: the segment
  detector \<^verbatim>\<open>findSegmentsByNumberPattern\<close>, the extractor
  \<^verbatim>\<open>extractSegmentsFromTimestamps\<close>, the two downmixers
  (\<^verbatim>\<open>resampleTo16kMono\<close> and \<^verbatim>\<open>convertAudioTo16kMono\<close>) and the encoder
  \<^verbatim>\<open>bufferToWav\<close>.

  Numbers. JavaScript numbers are IEEE doubles and \<^verbatim>\<open>Float32Array\<close> elements are IEEE
  singles. Finite values are modelled as exact reals: rounding, infinities and signed zero
  are outside the model, but for the two products of the extractor, whose rounding decides
  the number of frames: there the multiplication is a parameter. \<^verbatim>\<open>NaN\<close> is kept as a
  sample value of its own, because the code can store it (a typed-array read outside the array yields \<^verbatim>\<open>undefined\<close>). Sample rates
  are whole numbers of Hz. The integers that \<^verbatim>\<open>DataView\<close> stores are reduced modulo
  \<open>2 ^ 16\<close> and \<open>2 ^ 32\<close> as the platform does.
\<close>

subsection \<open>Transcript tokens and segments\<close>

text \<open>
  A chunk of the transcription: \<^verbatim>\<open>{ text, timestamp: [start, end] }\<close>. (The fields
  called \<^verbatim>\<open>text\<close> in the source are \<open>w_text\<close>, \<open>t_text\<close>, \<open>s_text\<close> and
  \<open>a_text\<close> here.)
\<close>

record chunk =
  w_text :: string
  timestamp :: "real \<times> real"

text \<open>The transcription result; \<^verbatim>\<open>chunks\<close> may be absent.\<close>

record transcription =
  t_text :: string
  chunks :: "chunk list option"

text \<open>The object the detector builds for each marker.\<close>

record segment =
  startTime :: real
  endTime :: real
  words :: "chunk list"
  s_text :: string
  number :: nat

text \<open>The settings; the detector reads \<^verbatim>\<open>minSegmentDuration\<close> only.\<close>

record settings =
  minSegmentDuration :: real

text \<open>
  \<^verbatim>\<open>String.prototype.trim\<close>: white space and line terminators are removed at both ends.
  Characters are 8-bit code units here, so the white space of the model is TAB, LF, VT, FF,
  CR, SPACE and NBSP.
\<close>

definition isWhiteSpace :: "char \<Rightarrow> bool" where
  "isWhiteSpace c = (of_char c \<in> {9, 10, 11, 12, 13, 32, 160 :: nat})"

definition trim :: "string \<Rightarrow> string" where
  "trim s = rev (dropWhile isWhiteSpace (rev (dropWhile isWhiteSpace s)))"

text \<open>\<^verbatim>\<open>/^\d+$/.test(s)\<close>: one or more ASCII digits and nothing else.\<close>

definition isDigit :: "char \<Rightarrow> bool" where
  "isDigit c = (48 \<le> (of_char c :: nat) \<and> (of_char c :: nat) \<le> 57)"

definition englishNumberPattern :: "string \<Rightarrow> bool" where
  "englishNumberPattern s = (s \<noteq> [] \<and> list_all isDigit s)"

text \<open>
  \<^verbatim>\<open>parseInt\<close> on a string of decimal digits (the only strings the detector passes);
  the value is exact here, where a double rounds above \<open>2 ^ 53\<close>.
\<close>

definition parseInt :: "string \<Rightarrow> nat" where
  "parseInt s = foldl (\<lambda>n c. 10 * n + ((of_char c :: nat) - 48)) 0 (takeWhile isDigit s)"

text \<open>
  The test that guards every \<^verbatim>\<open>segments.push(currentSegment)\<close>:
  \<^verbatim>\<open>currentSegment && currentSegment.endTime - currentSegment.startTime >= minSegmentDuration\<close>.
\<close>

definition pushIfLongEnough :: "settings \<Rightarrow> segment option \<Rightarrow> segment list \<Rightarrow> segment list" where
  "pushIfLongEnough st currentSegment segments =
     (case currentSegment of
        None \<Rightarrow> segments
      | Some c \<Rightarrow>
          if endTime c - startTime c \<ge> minSegmentDuration st then segments @ [c] else segments)"

text \<open>
  The body of the \<^verbatim>\<open>for\<close> loop, run over the remaining words with the loop variables
  \<^verbatim>\<open>currentSegment\<close> and \<^verbatim>\<open>segments\<close> passed along; the result is their value
  when the loop ends.
\<close>

fun segmentLoop ::
  "settings \<Rightarrow> segment option \<Rightarrow> segment list \<Rightarrow> chunk list \<Rightarrow> segment option \<times> segment list"
where
  "segmentLoop st currentSegment segments [] = (currentSegment, segments)"
| "segmentLoop st currentSegment segments (w # ws) =
     (let cleanText = trim (w_text w) in
      if englishNumberPattern cleanText then
        segmentLoop st
          (Some \<lparr>startTime = fst (timestamp w), endTime = snd (timestamp w), words = [w],
                 s_text = cleanText, number = parseInt cleanText\<rparr>)
          (pushIfLongEnough st currentSegment segments) ws
      else
        (case currentSegment of
           None \<Rightarrow> segmentLoop st None segments ws
         | Some c \<Rightarrow>
             (let timeSinceSegmentStart = fst (timestamp w) - startTime c in
              if timeSinceSegmentStart < 10 then
                segmentLoop st
                  (Some (c\<lparr>endTime := snd (timestamp w), words := words c @ [w],
                           s_text := s_text c @ '' '' @ cleanText\<rparr>))
                  segments ws
              else
                segmentLoop st None (pushIfLongEnough st (Some c) segments) ws)))"

text \<open>\<^verbatim>\<open>transcription.chunks || []\<close>.\<close>

definition chunksOf :: "transcription \<Rightarrow> chunk list" where
  "chunksOf tr = (case chunks tr of None \<Rightarrow> [] | Some cs \<Rightarrow> cs)"

definition findSegmentsByNumberPattern :: "settings \<Rightarrow> transcription \<Rightarrow> segment list" where
  "findSegmentsByNumberPattern st tr =
     (let (currentSegment, segments) = segmentLoop st None [] (chunksOf tr)
      in pushIfLongEnough st currentSegment segments)"

subsection \<open>Samples and audio buffers\<close>

text \<open>An element of a \<^verbatim>\<open>Float32Array\<close>: a finite number or \<^verbatim>\<open>NaN\<close>.\<close>

datatype sample = Num real | NaN

text \<open>\<^verbatim>\<open>a + b\<close> and \<^verbatim>\<open>a / n\<close> on numbers: \<^verbatim>\<open>NaN\<close> is absorbing.\<close>

fun addS :: "sample \<Rightarrow> sample \<Rightarrow> sample" where
  "addS (Num a) (Num b) = Num (a + b)"
| "addS _ _ = NaN"

fun divS :: "sample \<Rightarrow> nat \<Rightarrow> sample" where
  "divS (Num a) n = Num (a / real n)"
| "divS NaN n = NaN"

text \<open>
  Reading \<^verbatim>\<open>array[i]\<close> from a typed array, the value then used as a number: an index
  outside the array reads \<^verbatim>\<open>undefined\<close>, which becomes \<^verbatim>\<open>NaN\<close>.
\<close>

definition typedGet :: "sample list \<Rightarrow> int \<Rightarrow> sample" where
  "typedGet arr i = (if 0 \<le> i \<and> i < int (length arr) then arr ! nat i else NaN)"

text \<open>
  An \<^verbatim>\<open>AudioBuffer\<close>: its sample rate and one array per channel.
  \<^verbatim>\<open>numberOfChannels\<close> and \<^verbatim>\<open>length\<close> are read off the arrays.
\<close>

record audioBuffer =
  sampleRate :: nat
  channelData :: "sample list list"

definition numberOfChannels :: "audioBuffer \<Rightarrow> nat" where
  "numberOfChannels b = length (channelData b)"

definition bufferLength :: "audioBuffer \<Rightarrow> nat" where
  "bufferLength b = (case channelData b of [] \<Rightarrow> 0 | c # _ \<Rightarrow> length c)"

datatype error = NotSupportedError | IndexSizeError

text \<open>\<^verbatim>\<open>buffer.getChannelData(ch)\<close> raises \<^verbatim>\<open>IndexSizeError\<close> for a channel that does not exist.\<close>

definition getChannelData :: "audioBuffer \<Rightarrow> nat \<Rightarrow> error + sample list" where
  "getChannelData b ch =
     (if ch < numberOfChannels b then Inr (channelData b ! ch) else Inl IndexSizeError)"

text \<open>
  \<^verbatim>\<open>createBuffer(numberOfChannels, length, sampleRate)\<close> of the Web Audio API. The length is
  an \<^verbatim>\<open>unsigned long\<close>, so the number passed is reduced modulo \<open>2 ^ 32\<close>; a buffer
  with no channel or no frame is refused with \<^verbatim>\<open>NotSupportedError\<close>. The new buffer is
  silent. (The rate handed over in this program is always the rate of an existing buffer,
  so the platform's check of the rate is not modelled.)
\<close>

definition createBuffer :: "nat \<Rightarrow> int \<Rightarrow> nat \<Rightarrow> error + audioBuffer" where
  "createBuffer nChannels len rate =
     (let frames = nat (len mod 2 ^ 32) in
      if nChannels = 0 \<or> frames = 0 then Inl NotSupportedError
      else Inr \<lparr>sampleRate = rate, channelData = replicate nChannels (replicate frames (Num 0))\<rparr>)"

subsection \<open>The extractor\<close>

text \<open>An entry of the list that \<^verbatim>\<open>extractSegmentsFromTimestamps\<close> returns.\<close>

record audioSegment =
  a_id :: nat
  a_startTime :: real
  a_endTime :: real
  a_duration :: real
  a_text :: string
  buffer :: audioBuffer
  a_words :: "chunk list"

text \<open>
  The inner loop \<^verbatim>\<open>for (sample = 0; sample < segmentLength; sample++)\<close> over one channel:
  \<^verbatim>\<open>src\<close> is the source channel, \<^verbatim>\<open>dst\<close> the (silent) channel of the new buffer.
  A write beyond the end of \<^verbatim>\<open>dst\<close> has no effect, in a typed array as in a list update.
\<close>

definition copySamples :: "sample list \<Rightarrow> int \<Rightarrow> int \<Rightarrow> sample list \<Rightarrow> sample list" where
  "copySamples src startSample segmentLength dst =
     foldl (\<lambda>segmentChannelData sample.
              (let sourceIndex = startSample + int sample in
               if sourceIndex < int (length src)
               then segmentChannelData[sample := typedGet src sourceIndex]
               else segmentChannelData))
       dst [0..<nat segmentLength]"

text \<open>
  The body of the outer loop, for the segment at index \<^verbatim>\<open>i\<close>. The two products
  \<^verbatim>\<open>segment.startTime * sampleRate\<close> and \<^verbatim>\<open>segment.endTime * sampleRate\<close> are
  products of doubles, rounded by the platform before \<^verbatim>\<open>Math.floor\<close> sees them, and
  the rounding can move a product across a whole number. So the multiplication is the
  parameter \<open>multiply\<close>, and what is proved of the extractor holds for every
  multiplication. The examples take the exact product, at inputs where the rounded
  product has the same floor.
\<close>

definition extractSegment ::
  "(real \<Rightarrow> real \<Rightarrow> real) \<Rightarrow> audioBuffer \<Rightarrow> nat \<Rightarrow> segment \<Rightarrow> error + audioSegment" where
  "extractSegment multiply ab i seg =
     (let rate = sampleRate ab;
          startSample = \<lfloor>multiply (startTime seg) (real rate)\<rfloor>;
          endSample = \<lfloor>multiply (endTime seg) (real rate)\<rfloor>;
          duration = endTime seg - startTime seg;
          segmentLength = endSample - startSample
      in case createBuffer (numberOfChannels ab) segmentLength rate of
           Inl e \<Rightarrow> Inl e
         | Inr segmentBuffer \<Rightarrow>
             Inr \<lparr>a_id = i + 1, a_startTime = startTime seg, a_endTime = endTime seg,
                  a_duration = duration, a_text = s_text seg,
                  buffer = segmentBuffer
                    \<lparr>channelData :=
                       map (\<lambda>(src, dst). copySamples src startSample segmentLength dst)
                         (zip (channelData ab) (channelData segmentBuffer))\<rparr>,
                  a_words = words seg\<rparr>)"

text \<open>
  The loop over the segments, from index \<^verbatim>\<open>i\<close> on. An exception of \<^verbatim>\<open>createBuffer\<close>
  ends the function: nothing is returned.
\<close>

fun extractFrom ::
  "(real \<Rightarrow> real \<Rightarrow> real) \<Rightarrow> audioBuffer \<Rightarrow> nat \<Rightarrow> segment list
     \<Rightarrow> error + audioSegment list" where
  "extractFrom multiply ab i [] = Inr []"
| "extractFrom multiply ab i (seg # rest) =
     (case extractSegment multiply ab i seg of
        Inl e \<Rightarrow> Inl e
      | Inr a \<Rightarrow>
          (case extractFrom multiply ab (i + 1) rest of
             Inl e \<Rightarrow> Inl e
           | Inr as \<Rightarrow> Inr (a # as)))"

text \<open>
  \<^verbatim>\<open>extractSegmentsFromTimestamps\<close>; the first argument is the platform's multiplication,
  the second is \<^verbatim>\<open>this.audioBuffer\<close>.
\<close>

definition extractSegmentsFromTimestamps ::
  "(real \<Rightarrow> real \<Rightarrow> real) \<Rightarrow> audioBuffer \<Rightarrow> segment list \<Rightarrow> error + audioSegment list" where
  "extractSegmentsFromTimestamps multiply ab segments = extractFrom multiply ab 0 segments"

subsection \<open>Downmixing\<close>

text \<open>
  The mono buffer of \<^verbatim>\<open>resampleTo16kMono\<close>: a mono input is taken as it is, any other
  input is replaced by the half sum of its channels 0 and 1.
\<close>

definition resampleTo16kMono_monoBuffer :: "audioBuffer \<Rightarrow> error + audioBuffer" where
  "resampleTo16kMono_monoBuffer ab =
     (if numberOfChannels ab = 1 then Inr ab
      else
        (case createBuffer 1 (int (bufferLength ab)) (sampleRate ab) of
           Inl e \<Rightarrow> Inl e
         | Inr monoBuffer \<Rightarrow>
             (case getChannelData ab 0 of
                Inl e \<Rightarrow> Inl e
              | Inr left \<Rightarrow>
                  (case getChannelData ab 1 of
                     Inl e \<Rightarrow> Inl e
                   | Inr right \<Rightarrow>
                       Inr (monoBuffer
                         \<lparr>channelData :=
                            [map (\<lambda>i. divS (addS (typedGet left (int i)) (typedGet right (int i))) 2)
                               [0..<bufferLength ab]]\<rparr>)))))"

text \<open>
  \<^verbatim>\<open>resampleTo16kMono\<close>: the mono buffer is rendered by an \<^verbatim>\<open>OfflineAudioContext\<close>
  of \<open>\<lceil>duration * 16000\<rceil>\<close> frames at 16 kHz, and the rendered samples are returned. The
  context is created first and is refused when it has no frame. The renderer belongs to
  the platform and is a parameter: it maps the buffer played and the number of frames
  asked for to the rendered samples.
\<close>

definition resampleTo16kMono ::
  "(audioBuffer \<Rightarrow> nat \<Rightarrow> sample list) \<Rightarrow> audioBuffer \<Rightarrow> error + sample list" where
  "resampleTo16kMono startRendering ab =
     (let frames = nat \<lceil>(real (bufferLength ab) / real (sampleRate ab)) * 16000\<rceil> in
      if frames = 0 then Inl NotSupportedError
      else
        (case resampleTo16kMono_monoBuffer ab of
           Inl e \<Rightarrow> Inl e
         | Inr monoBuffer \<Rightarrow> Inr (startRendering monoBuffer frames)))"

text \<open>
  The \<^verbatim>\<open>monoData\<close> of \<^verbatim>\<open>convertAudioTo16kMono\<close>: a copy of the only channel, or for
  each frame the sum of all channels divided by their number.
\<close>

definition monoData :: "audioBuffer \<Rightarrow> sample list" where
  "monoData originalBuffer =
     (if numberOfChannels originalBuffer = 1 then
        map (\<lambda>i. typedGet (channelData originalBuffer ! 0) (int i))
          [0..<bufferLength originalBuffer]
      else
        map (\<lambda>i. divS (foldl (\<lambda>sum ch. addS sum (typedGet ch (int i))) (Num 0)
                            (channelData originalBuffer))
                     (numberOfChannels originalBuffer))
          [0..<bufferLength originalBuffer])"

text \<open>
  \<^verbatim>\<open>convertAudioTo16kMono\<close>, from the decoded \<^verbatim>\<open>originalBuffer\<close> on. The result is the
  buffer stored in \<^verbatim>\<open>this.audioBuffer\<close>; on an exception nothing is stored.
\<close>

definition convertAudioTo16kMono ::
  "(audioBuffer \<Rightarrow> nat \<Rightarrow> sample list) \<Rightarrow> audioBuffer \<Rightarrow> error + audioBuffer" where
  "convertAudioTo16kMono startRendering originalBuffer =
     (if numberOfChannels originalBuffer = 1 \<and> sampleRate originalBuffer = 16000
      then Inr originalBuffer
      else
        (case createBuffer 1 (int (bufferLength originalBuffer)) (sampleRate originalBuffer) of
           Inl e \<Rightarrow> Inl e
         | Inr emptyMono \<Rightarrow>
             (let monoBuffer = emptyMono\<lparr>channelData := [monoData originalBuffer]\<rparr> in
              if sampleRate originalBuffer \<noteq> 16000 then
                Inr \<lparr>sampleRate = 16000,
                     channelData =
                       [startRendering monoBuffer
                          (nat \<lceil>real (bufferLength monoBuffer * 16000)
                                 / real (sampleRate monoBuffer)\<rceil>)]\<rparr>
              else Inr monoBuffer)))"

subsection \<open>The WAV encoder\<close>

type_synonym byte = "8 word"

text \<open>
  The \<^verbatim>\<open>DataView\<close> writers, little-endian, on the bytes of the \<^verbatim>\<open>ArrayBuffer\<close>. The
  number written is first reduced to the width of the field. Every write of
  \<^verbatim>\<open>bufferToWav\<close> lies inside the buffer, which is allocated for it.
\<close>

definition setUint8 :: "nat \<Rightarrow> nat \<Rightarrow> byte list \<Rightarrow> byte list" where
  "setUint8 offset v view = view[offset := of_nat (v mod 2 ^ 8)]"

definition setUint16 :: "nat \<Rightarrow> nat \<Rightarrow> byte list \<Rightarrow> byte list" where
  "setUint16 offset v view =
     (let u = v mod 2 ^ 16 in
      view[offset := of_nat (u mod 256), offset + 1 := of_nat (u div 256)])"

definition setUint32 :: "nat \<Rightarrow> nat \<Rightarrow> byte list \<Rightarrow> byte list" where
  "setUint32 offset v view =
     (let u = v mod 2 ^ 32 in
      view[offset := of_nat (u mod 256), offset + 1 := of_nat (u div 256 mod 256),
           offset + 2 := of_nat (u div 65536 mod 256), offset + 3 := of_nat (u div 16777216)])"

text \<open>
  The conversion of a number to an integer that \<^verbatim>\<open>setInt16\<close> applies: \<^verbatim>\<open>NaN\<close> gives 0,
  any other number is truncated towards zero.
\<close>

fun toInteger :: "sample \<Rightarrow> int" where
  "toInteger NaN = 0"
| "toInteger (Num v) = (if v < 0 then \<lceil>v\<rceil> else \<lfloor>v\<rfloor>)"

definition setInt16 :: "nat \<Rightarrow> sample \<Rightarrow> byte list \<Rightarrow> byte list" where
  "setInt16 offset v view =
     (let u = nat (toInteger v mod 2 ^ 16) in
      view[offset := of_nat (u mod 256), offset + 1 := of_nat (u div 256)])"

text \<open>The local \<^verbatim>\<open>writeString\<close>: one byte per character code.\<close>

fun writeString :: "nat \<Rightarrow> string \<Rightarrow> byte list \<Rightarrow> byte list" where
  "writeString offset [] view = view"
| "writeString offset (c # cs) view = writeString (offset + 1) cs (setUint8 offset (of_char c) view)"

text \<open>\<^verbatim>\<open>Math.max(-1, Math.min(1, x))\<close>.\<close>

fun clampSample :: "sample \<Rightarrow> sample" where
  "clampSample (Num x) = Num (max (- 1) (min 1 x))"
| "clampSample NaN = NaN"

text \<open>\<^verbatim>\<open>sample < 0 ? sample * 0x8000 : sample * 0x7FFF\<close>.\<close>

fun scaleSample :: "sample \<Rightarrow> sample" where
  "scaleSample (Num s) = Num (if s < 0 then s * 32768 else s * 32767)"
| "scaleSample NaN = NaN"

text \<open>The loop over the samples of channel 0, writing from \<^verbatim>\<open>offset\<close> on.\<close>

fun writeSamples :: "nat \<Rightarrow> sample list \<Rightarrow> byte list \<Rightarrow> byte list" where
  "writeSamples offset [] view = view"
| "writeSamples offset (x # xs) view =
     writeSamples (offset + 2) xs (setInt16 offset (scaleSample (clampSample x)) view)"

text \<open>The header writes of \<^verbatim>\<open>bufferToWav\<close>, in the order of the source.\<close>

definition writeHeader :: "nat \<Rightarrow> nat \<Rightarrow> byte list \<Rightarrow> byte list" where
  "writeHeader len rate view0 =
     (let view1 = writeString 0 ''RIFF'' view0;
          view2 = setUint32 4 (36 + len * 2) view1;
          view3 = writeString 8 ''WAVE'' view2;
          view4 = writeString 12 ''fmt '' view3;
          view5 = setUint32 16 16 view4;
          view6 = setUint16 20 1 view5;
          view7 = setUint16 22 1 view6;
          view8 = setUint32 24 rate view7;
          view9 = setUint32 28 (rate * 2) view8;
          view10 = setUint16 32 2 view9;
          view11 = setUint16 34 16 view10;
          view12 = writeString 36 ''data'' view11
      in setUint32 40 (len * 2) view12)"

text \<open>\<^verbatim>\<open>bufferToWav\<close>: the bytes of the blob returned.\<close>

definition bufferToWav :: "audioBuffer \<Rightarrow> error + byte list" where
  "bufferToWav b =
     (let len = bufferLength b;
          arrayBuffer = replicate (44 + len * 2) (0 :: byte);
          view = writeHeader len (sampleRate b) arrayBuffer
      in case getChannelData b 0 of
           Inl e \<Rightarrow> Inl e
         | Inr samples \<Rightarrow> Inr (writeSamples 44 (take len samples) view))"

text \<open>The readers of \<^verbatim>\<open>DataView\<close>, little-endian, used to state what a file holds.\<close>

definition getUint16 :: "nat \<Rightarrow> byte list \<Rightarrow> nat" where
  "getUint16 offset view = unat (view ! offset) + 256 * unat (view ! (offset + 1))"

definition getUint32 :: "nat \<Rightarrow> byte list \<Rightarrow> nat" where
  "getUint32 offset view =
     unat (view ! offset) + 256 * unat (view ! (offset + 1))
       + 65536 * unat (view ! (offset + 2)) + 16777216 * unat (view ! (offset + 3))"

definition getInt16 :: "nat \<Rightarrow> byte list \<Rightarrow> int" where
  "getInt16 offset view =
     (let u = int (getUint16 offset view) in if u \<ge> 32768 then u - 65536 else u)"

text \<open>The characters at an offset, as \<^verbatim>\<open>String.fromCharCode\<close> would read them.\<close>

definition getString :: "nat \<Rightarrow> nat \<Rightarrow> byte list \<Rightarrow> string" where
  "getString offset n view = map (\<lambda>i. char_of (unat (view ! (offset + i)))) [0..<n]"

subsection \<open>The file as a whole\<close>

text \<open>The two bytes that the loop of \<^verbatim>\<open>bufferToWav\<close> stores for one sample.\<close>

definition sampleBytes :: "sample \<Rightarrow> byte list" where
  "sampleBytes x =
     (let u = nat (toInteger (scaleSample (clampSample x)) mod 2 ^ 16)
      in [of_nat (u mod 256), of_nat (u div 256)])"

text \<open>The 44 bytes that the header writes leave in a fresh buffer.\<close>

definition wavHeader :: "nat \<Rightarrow> nat \<Rightarrow> byte list" where
  "wavHeader len rate = writeHeader len rate (replicate 44 0)"

subsection \<open>The mean across channels\<close>

text \<open>
  The arithmetic mean, over all channels of a buffer, of the samples at one index; it is a
  number when all these samples are numbers.
\<close>

fun isNum :: "sample \<Rightarrow> bool" where
  "isNum (Num x) = True"
| "isNum NaN = False"

fun sampleValue :: "sample \<Rightarrow> real" where
  "sampleValue (Num x) = x"
| "sampleValue NaN = 0"

definition channelMean :: "audioBuffer \<Rightarrow> nat \<Rightarrow> sample" where
  "channelMean b i =
     (if list_all (\<lambda>c. isNum (c ! i)) (channelData b)
      then Num (sum_list (map (\<lambda>c. sampleValue (c ! i)) (channelData b))
                 / real (numberOfChannels b))
      else NaN)"

subsection \<open>Properties of token lists\<close>

text \<open>A token does not end before it starts.\<close>

definition startBeforeEnd :: "chunk \<Rightarrow> bool" where
  "startBeforeEnd w = (fst (timestamp w) \<le> snd (timestamp w))"

text \<open>The start times never decrease along the list.\<close>

definition startsNonDecreasing :: "chunk list \<Rightarrow> bool" where
  "startsNonDecreasing ws = sorted (map (\<lambda>w. fst (timestamp w)) ws)"

text \<open>The end times never decrease along the list.\<close>

definition endsNonDecreasing :: "chunk list \<Rightarrow> bool" where
  "endsNonDecreasing ws = sorted (map (\<lambda>w. snd (timestamp w)) ws)"

text \<open>No token ends before it starts, and each token ends no later than the next one starts.\<close>

fun tokensInSequence :: "chunk list \<Rightarrow> bool" where
  "tokensInSequence [] = True"
| "tokensInSequence [w] = startBeforeEnd w"
| "tokensInSequence (w # v # ws) =
     (startBeforeEnd w \<and> snd (timestamp w) \<le> fst (timestamp v) \<and> tokensInSequence (v # ws))"

subsection \<open>The invariant of the detector's loop\<close>

text \<open>The tokens still to come are in sequence and none starts before the time \<open>b\<close>.\<close>

fun seqFrom :: "real \<Rightarrow> chunk list \<Rightarrow> bool" where
  "seqFrom b [] = True"
| "seqFrom b (w # ws) =
     (b \<le> fst (timestamp w) \<and> fst (timestamp w) \<le> snd (timestamp w)
      \<and> seqFrom (snd (timestamp w)) ws)"

definition ordered :: "segment list \<Rightarrow> bool" where
  "ordered segs = sorted_wrt (\<lambda>a b. endTime a \<le> startTime b) segs"

text \<open>
  The segments pushed so far are in order and end by the time \<open>b\<close>; so does the open
  segment, which starts after all of them have ended.
\<close>

definition loopInv :: "real \<Rightarrow> segment option \<Rightarrow> segment list \<Rightarrow> bool" where
  "loopInv b cur segs =
     (ordered segs \<and> (\<forall>s \<in> set segs. endTime s \<le> b) \<and>
      (case cur of
         None \<Rightarrow> True
       | Some c \<Rightarrow> endTime c \<le> b \<and> (\<forall>s \<in> set segs. endTime s \<le> startTime c)))"

section \<open>Proofs\<close>

subsection \<open>The detector: minimum duration\<close>

lemma pushIfLongEnough_min:
  assumes "\<forall>s \<in> set segments. minSegmentDuration st \<le> endTime s - startTime s"
  shows "\<forall>s \<in> set (pushIfLongEnough st cur segments). minSegmentDuration st \<le> endTime s - startTime s"
  using assms by (auto simp: pushIfLongEnough_def split: option.splits)

lemma segmentLoop_min:
  assumes "\<forall>s \<in> set segments. minSegmentDuration st \<le> endTime s - startTime s"
  shows "\<forall>s \<in> set (snd (segmentLoop st cur segments ws)).
           minSegmentDuration st \<le> endTime s - startTime s"
  using assms
proof (induction ws arbitrary: cur segments)
  case Nil
  then show ?case by simp
next
  case (Cons w ws)
  show ?case
  proof (cases "englishNumberPattern (trim (w_text w))")
    case True
    then show ?thesis
      using Cons.IH [OF pushIfLongEnough_min [OF Cons.prems]] by (simp add: Let_def)
  next
    case False
    show ?thesis
    proof (cases cur)
      case None
      then show ?thesis using False Cons.IH [OF Cons.prems] by simp
    next
      case (Some c)
      then show ?thesis
        using False Cons.IH [OF Cons.prems] Cons.IH [OF pushIfLongEnough_min [OF Cons.prems]]
        by (simp add: Let_def)
    qed
  qed
qed

lemma findSegments_long_enough:
  "d \<in> set (findSegmentsByNumberPattern st tr) \<Longrightarrow>
   minSegmentDuration st \<le> endTime d - startTime d"
proof -
  obtain cur segs where r: "segmentLoop st None [] (chunksOf tr) = (cur, segs)"
    by (cases "segmentLoop st None [] (chunksOf tr)")
  have "\<forall>s \<in> set segs. minSegmentDuration st \<le> endTime s - startTime s"
    using segmentLoop_min [of "[]" st None "chunksOf tr"] r by simp
  from pushIfLongEnough_min [OF this, of cur]
  show "d \<in> set (findSegmentsByNumberPattern st tr) \<Longrightarrow>
      minSegmentDuration st \<le> endTime d - startTime d"
    by (simp add: findSegmentsByNumberPattern_def r)
qed

text \<open>
  C1. Every segment that \<^verbatim>\<open>findSegmentsByNumberPattern\<close> returns lasts at least
  \<^verbatim>\<open>minSegmentDuration\<close>, for every transcription and every setting.
\<close>

theorem findSegments_min_duration:
  "\<forall>s \<in> set (findSegmentsByNumberPattern st tr).
     endTime s - startTime s \<ge> minSegmentDuration st"
  using findSegments_long_enough by blast

lemmas detector_defs = findSegmentsByNumberPattern_def chunksOf_def trim_def isWhiteSpace_def
  englishNumberPattern_def isDigit_def parseInt_def pushIfLongEnough_def Let_def

text \<open>
  The theorem at the transcript ``105 hello world'' with a minimum of 2 seconds: one segment,
  from 0 to 2.6 seconds.
\<close>

theorem findSegments_min_duration_witness:
  "findSegmentsByNumberPattern \<lparr>minSegmentDuration = 2\<rparr>
     \<lparr>t_text = ''105 hello world'',
      chunks = Some [\<lparr>w_text = ''105'', timestamp = (0, 4/10)\<rparr>,
        \<lparr>w_text = '' hello'', timestamp = (5/10, 1)\<rparr>,
        \<lparr>w_text = '' world'', timestamp = (11/10, 26/10)\<rparr>]\<rparr>
   = [\<lparr>startTime = 0, endTime = 26/10,
      words = [\<lparr>w_text = ''105'', timestamp = (0, 4/10)\<rparr>,
        \<lparr>w_text = '' hello'', timestamp = (5/10, 1)\<rparr>,
        \<lparr>w_text = '' world'', timestamp = (11/10, 26/10)\<rparr>],
      s_text = ''105 hello world'', number = 105\<rparr>]
   \<and> (2::real) \<le> 26/10 - 0"
  using findSegments_min_duration [of "\<lparr>minSegmentDuration = 2\<rparr>"
     "\<lparr>t_text = ''105 hello world'',
      chunks = Some [\<lparr>w_text = ''105'', timestamp = (0, 4/10)\<rparr>,
        \<lparr>w_text = '' hello'', timestamp = (5/10, 1)\<rparr>,
        \<lparr>w_text = '' world'', timestamp = (11/10, 26/10)\<rparr>]\<rparr>"]
  by (simp add: detector_defs)

subsection \<open>The detector: order of the segments\<close>

lemma tokensInSequence_seqFrom:
  "tokensInSequence (w # ws) \<Longrightarrow> seqFrom (fst (timestamp w)) (w # ws)"
  by (induction ws arbitrary: w) (auto simp: startBeforeEnd_def)

lemma ordered_push:
  "loopInv b cur segs \<Longrightarrow> ordered (pushIfLongEnough st cur segs)"
  by (auto simp: loopInv_def ordered_def pushIfLongEnough_def sorted_wrt_append split: option.splits)

lemma loopInv_push:
  "loopInv b cur segs \<Longrightarrow> b \<le> b' \<Longrightarrow> e \<le> b' \<Longrightarrow> b \<le> s \<Longrightarrow>
   loopInv b' (Some \<lparr>startTime = s, endTime = e, words = wl, s_text = t, number = n\<rparr>)
     (pushIfLongEnough st cur segs)"
  by (fastforce simp: loopInv_def ordered_def pushIfLongEnough_def sorted_wrt_append split: option.splits)

lemma loopInv_close:
  "loopInv b (Some c) segs \<Longrightarrow> b \<le> b' \<Longrightarrow> loopInv b' None (pushIfLongEnough st (Some c) segs)"
  by (fastforce simp: loopInv_def ordered_def pushIfLongEnough_def sorted_wrt_append)

lemma loopInv_absorb:
  "loopInv b (Some c) segs \<Longrightarrow> b \<le> b' \<Longrightarrow> e \<le> b' \<Longrightarrow>
   loopInv b' (Some (c\<lparr>endTime := e, words := wl, s_text := t\<rparr>)) segs"
  by (fastforce simp: loopInv_def)

lemma loopInv_skip:
  "loopInv b None segs \<Longrightarrow> b \<le> b' \<Longrightarrow> loopInv b' None segs"
  by (fastforce simp: loopInv_def)

lemma segmentLoop_ordered:
  "seqFrom b ws \<Longrightarrow> loopInv b cur segs \<Longrightarrow>
   segmentLoop st cur segs ws = (cur', segs') \<Longrightarrow> \<exists>b'. loopInv b' cur' segs'"
proof (induction ws arbitrary: b cur segs)
  case Nil
  then show ?case by auto
next
  case (Cons w ws)
  let ?s = "fst (timestamp w)" and ?e = "snd (timestamp w)"
  from Cons.prems(1) have b: "b \<le> ?s" "?s \<le> ?e" and rest: "seqFrom ?e ws" by auto
  show ?case
  proof (cases "englishNumberPattern (trim (w_text w))")
    case True
    have "loopInv ?e (Some \<lparr>startTime = ?s, endTime = ?e, words = [w],
                 s_text = trim (w_text w), number = parseInt (trim (w_text w))\<rparr>)
            (pushIfLongEnough st cur segs)"
      using loopInv_push [OF Cons.prems(2), of ?e ?e ?s] b by simp
    from Cons.IH [OF rest this] Cons.prems(3) True show ?thesis by (simp add: Let_def)
  next
    case False
    show ?thesis
    proof (cases cur)
      case None
      have "loopInv ?e None segs" using loopInv_skip [of b segs ?e] Cons.prems(2) b None by simp
      from Cons.IH [OF rest this] Cons.prems(3) False None show ?thesis by simp
    next
      case (Some c)
      show ?thesis
      proof (cases "?s - startTime c < 10")
        case True
        have "loopInv ?e (Some (c\<lparr>endTime := ?e, words := words c @ [w],
                           s_text := s_text c @ '' '' @ trim (w_text w)\<rparr>)) segs"
          using loopInv_absorb [of b c segs ?e ?e] Cons.prems(2) b Some by simp
        from Cons.IH [OF rest this] Cons.prems(3) False Some True show ?thesis
          by (simp add: Let_def)
      next
        case far: False
        have "loopInv ?e None (pushIfLongEnough st (Some c) segs)"
          using loopInv_close [of b c segs ?e] Cons.prems(2) b Some by simp
        from Cons.IH [OF rest this] Cons.prems(3) False Some far show ?thesis
          by (simp add: Let_def)
      qed
    qed
  qed
qed

lemma findSegments_ordered:
  assumes "tokensInSequence (chunksOf tr)"
  shows "ordered (findSegmentsByNumberPattern st tr)"
proof -
  obtain cur segs where r: "segmentLoop st None [] (chunksOf tr) = (cur, segs)"
    by (cases "segmentLoop st None [] (chunksOf tr)")
  have i0: "loopInv b None []" for b by (simp add: loopInv_def ordered_def)
  have "\<exists>b. loopInv b cur segs"
  proof (cases "chunksOf tr")
    case Nil
    with r i0 show ?thesis by auto
  next
    case (Cons w ws)
    with assms have "seqFrom (fst (timestamp w)) (chunksOf tr)"
      using tokensInSequence_seqFrom by simp
    from segmentLoop_ordered [OF this i0 r] show ?thesis .
  qed
  then obtain b where "loopInv b cur segs" ..
  from ordered_push [OF this] show ?thesis
    using r by (simp add: findSegmentsByNumberPattern_def chunksOf_def)
qed

text \<open>With a positive minimum duration the start times increase strictly.\<close>

lemma findSegments_starts_increase:
  assumes "tokensInSequence (chunksOf tr)" and "0 < minSegmentDuration st"
    and "Suc i < length (findSegmentsByNumberPattern st tr)"
  shows "startTime (findSegmentsByNumberPattern st tr ! i)
           < startTime (findSegmentsByNumberPattern st tr ! Suc i)"
proof -
  have "endTime (findSegmentsByNumberPattern st tr ! i)
           \<le> startTime (findSegmentsByNumberPattern st tr ! Suc i)"
    using findSegments_ordered [OF assms(1), of st] assms(3)
    by (simp add: ordered_def sorted_wrt_iff_nth_less)
  moreover have "minSegmentDuration st \<le> endTime (findSegmentsByNumberPattern st tr ! i)
      - startTime (findSegmentsByNumberPattern st tr ! i)"
    using assms(3) by (intro findSegments_long_enough [of _ st tr]) simp
  ultimately show ?thesis using assms(2) by linarith
qed

text \<open>
  C2, as amended. When no token ends before it starts and each token ends no later than the
  next one starts, consecutive segments of \<^verbatim>\<open>findSegmentsByNumberPattern\<close> do not overlap:
  segment \<open>i\<close> ends no later than segment \<open>i + 1\<close> starts.
\<close>

theorem findSegments_in_order:
  assumes "tokensInSequence (chunksOf tr)"
    and "Suc i < length (findSegmentsByNumberPattern st tr)"
  shows "endTime (findSegmentsByNumberPattern st tr ! i)
           \<le> startTime (findSegmentsByNumberPattern st tr ! Suc i)"
  using findSegments_ordered [OF assms(1), of st] assms(2)
  by (simp add: ordered_def sorted_wrt_iff_nth_less)

text \<open>The theorem at a transcript of two numbered items, 0 to 2.5 and 3 to 6 seconds.\<close>

theorem findSegments_in_order_witness:
  "tokensInSequence (chunksOf
       \<lparr>t_text = ''1 one 2 two'', chunks = Some
         [\<lparr>w_text = ''1'', timestamp = (0, 1/2)\<rparr>, \<lparr>w_text = '' one'', timestamp = (6/10, 5/2)\<rparr>,
          \<lparr>w_text = '' 2'', timestamp = (3, 34/10)\<rparr>, \<lparr>w_text = '' two'', timestamp = (35/10, 6)\<rparr>]\<rparr>)
   \<and> Suc 0 < length (findSegmentsByNumberPattern \<lparr>minSegmentDuration = 2\<rparr>
       \<lparr>t_text = ''1 one 2 two'', chunks = Some
         [\<lparr>w_text = ''1'', timestamp = (0, 1/2)\<rparr>, \<lparr>w_text = '' one'', timestamp = (6/10, 5/2)\<rparr>,
          \<lparr>w_text = '' 2'', timestamp = (3, 34/10)\<rparr>, \<lparr>w_text = '' two'', timestamp = (35/10, 6)\<rparr>]\<rparr>)
   \<and> endTime (findSegmentsByNumberPattern \<lparr>minSegmentDuration = 2\<rparr>
       \<lparr>t_text = ''1 one 2 two'', chunks = Some
         [\<lparr>w_text = ''1'', timestamp = (0, 1/2)\<rparr>, \<lparr>w_text = '' one'', timestamp = (6/10, 5/2)\<rparr>,
          \<lparr>w_text = '' 2'', timestamp = (3, 34/10)\<rparr>, \<lparr>w_text = '' two'', timestamp = (35/10, 6)\<rparr>]\<rparr> ! 0)
     \<le> startTime (findSegmentsByNumberPattern \<lparr>minSegmentDuration = 2\<rparr>
       \<lparr>t_text = ''1 one 2 two'', chunks = Some
         [\<lparr>w_text = ''1'', timestamp = (0, 1/2)\<rparr>, \<lparr>w_text = '' one'', timestamp = (6/10, 5/2)\<rparr>,
          \<lparr>w_text = '' 2'', timestamp = (3, 34/10)\<rparr>, \<lparr>w_text = '' two'', timestamp = (35/10, 6)\<rparr>]\<rparr> ! Suc 0)"
  using findSegments_in_order [of
       "\<lparr>t_text = ''1 one 2 two'', chunks = Some
         [\<lparr>w_text = ''1'', timestamp = (0, 1/2)\<rparr>, \<lparr>w_text = '' one'', timestamp = (6/10, 5/2)\<rparr>,
          \<lparr>w_text = '' 2'', timestamp = (3, 34/10)\<rparr>, \<lparr>w_text = '' two'', timestamp = (35/10, 6)\<rparr>]\<rparr>"
       0 "\<lparr>minSegmentDuration = 2\<rparr>"]
  by (simp add: detector_defs startBeforeEnd_def)

text \<open>
  C2 as stated fails. In the transcript below the start times 0, 1, 2, 3 never decrease,
  nor do the end times, and every token starts before it ends; but the word after the first
  number lasts from 1 to 5 seconds and the second number is spoken at 2 seconds: the first
  segment ends at 5, the second starts at 2.
\<close>

theorem consecutive_segments_overlap:
  "startsNonDecreasing
     [\<lparr>w_text = ''1'', timestamp = (0, 1/2)\<rparr>, \<lparr>w_text = '' one'', timestamp = (1, 5)\<rparr>,
      \<lparr>w_text = '' 2'', timestamp = (2, 11/2)\<rparr>, \<lparr>w_text = '' two'', timestamp = (3, 6)\<rparr>]
   \<and> endsNonDecreasing
     [\<lparr>w_text = ''1'', timestamp = (0, 1/2)\<rparr>, \<lparr>w_text = '' one'', timestamp = (1, 5)\<rparr>,
      \<lparr>w_text = '' 2'', timestamp = (2, 11/2)\<rparr>, \<lparr>w_text = '' two'', timestamp = (3, 6)\<rparr>]
   \<and> list_all startBeforeEnd
     [\<lparr>w_text = ''1'', timestamp = (0, 1/2)\<rparr>, \<lparr>w_text = '' one'', timestamp = (1, 5)\<rparr>,
      \<lparr>w_text = '' 2'', timestamp = (2, 11/2)\<rparr>, \<lparr>w_text = '' two'', timestamp = (3, 6)\<rparr>]
   \<and> length (findSegmentsByNumberPattern \<lparr>minSegmentDuration = 2\<rparr>
     \<lparr>t_text = ''1 one 2 two'', chunks = Some
      [\<lparr>w_text = ''1'', timestamp = (0, 1/2)\<rparr>, \<lparr>w_text = '' one'', timestamp = (1, 5)\<rparr>,
      \<lparr>w_text = '' 2'', timestamp = (2, 11/2)\<rparr>, \<lparr>w_text = '' two'', timestamp = (3, 6)\<rparr>]\<rparr>) = 2
   \<and> \<not> endTime (findSegmentsByNumberPattern \<lparr>minSegmentDuration = 2\<rparr>
     \<lparr>t_text = ''1 one 2 two'', chunks = Some
      [\<lparr>w_text = ''1'', timestamp = (0, 1/2)\<rparr>, \<lparr>w_text = '' one'', timestamp = (1, 5)\<rparr>,
      \<lparr>w_text = '' 2'', timestamp = (2, 11/2)\<rparr>, \<lparr>w_text = '' two'', timestamp = (3, 6)\<rparr>]\<rparr> ! 0)
     \<le> startTime (findSegmentsByNumberPattern \<lparr>minSegmentDuration = 2\<rparr>
     \<lparr>t_text = ''1 one 2 two'', chunks = Some
      [\<lparr>w_text = ''1'', timestamp = (0, 1/2)\<rparr>, \<lparr>w_text = '' one'', timestamp = (1, 5)\<rparr>,
      \<lparr>w_text = '' 2'', timestamp = (2, 11/2)\<rparr>, \<lparr>w_text = '' two'', timestamp = (3, 6)\<rparr>]\<rparr> ! 1)"
  by (simp add: detector_defs startsNonDecreasing_def endsNonDecreasing_def startBeforeEnd_def)

subsection \<open>The extractor\<close>

lemma createBuffer_Inr:
  assumes "0 < n" "1 \<le> len" "len < 2 ^ 32"
  shows "createBuffer n len rate =
    Inr \<lparr>sampleRate = rate, channelData = replicate n (replicate (nat len) (Num 0))\<rparr>"
  using assms by (simp add: createBuffer_def Let_def)

lemma createBuffer_shape:
  assumes "createBuffer n len rate = Inr b"
  shows "sampleRate b = rate \<and> length (channelData b) = n \<and> 0 < n"
  using assms by (auto simp: createBuffer_def Let_def split: if_splits)

lemma copySamples_length [simp]: "length (copySamples src s l dst) = length dst"
proof -
  have "length (foldl (\<lambda>acc sample.
              (let sourceIndex = s + int sample in
               if sourceIndex < int (length src)
               then acc[sample := typedGet src sourceIndex]
               else acc)) dst xs) = length dst" for xs
    by (induction xs arbitrary: dst) (simp_all add: Let_def)
  then show ?thesis by (simp add: copySamples_def)
qed

lemma copyFold_nth:
  "j < length dst \<Longrightarrow>
   foldl (\<lambda>acc sample.
              (let sourceIndex = s + int sample in
               if sourceIndex < int (length src)
               then acc[sample := typedGet src sourceIndex]
               else acc)) dst [0..<n] ! j
   = (if j < n \<and> s + int j < int (length src) then typedGet src (s + int j) else dst ! j)"
proof (induction n)
  case 0
  then show ?case by simp
next
  case (Suc n)
  have len: "length (foldl (\<lambda>acc sample.
              (let sourceIndex = s + int sample in
               if sourceIndex < int (length src)
               then acc[sample := typedGet src sourceIndex]
               else acc)) dst xs) = length dst" for xs
    by (induction xs arbitrary: dst) (simp_all add: Let_def)
  show ?case using Suc len [of "[0..<n]"]
    by (auto simp: Let_def nth_list_update less_Suc_eq)
qed

lemma copySamples_nth:
  "j < length dst \<Longrightarrow>
   copySamples src s l dst ! j
   = (if int j < l \<and> s + int j < int (length src) then typedGet src (s + int j) else dst ! j)"
  unfolding copySamples_def by (subst copyFold_nth) auto

lemma zip_replicate_map:
  "map (\<lambda>(src, dst). f src dst) (zip xs (replicate (length xs) z)) = map (\<lambda>src. f src z) xs"
  by (induction xs) simp_all

lemma extractSegment_Inr:
  assumes "0 < numberOfChannels ab"
    and "1 \<le> \<lfloor>multiply (endTime d) (real (sampleRate ab))\<rfloor> - \<lfloor>multiply (startTime d) (real (sampleRate ab))\<rfloor>"
    and "\<lfloor>multiply (endTime d) (real (sampleRate ab))\<rfloor> - \<lfloor>multiply (startTime d) (real (sampleRate ab))\<rfloor> < 2 ^ 32"
  shows "extractSegment multiply ab i d =
     Inr \<lparr>a_id = i + 1, a_startTime = startTime d, a_endTime = endTime d,
          a_duration = endTime d - startTime d, a_text = s_text d,
          buffer = \<lparr>sampleRate = sampleRate ab,
             channelData = map (\<lambda>src. copySamples src \<lfloor>multiply (startTime d) (real (sampleRate ab))\<rfloor>
                (\<lfloor>multiply (endTime d) (real (sampleRate ab))\<rfloor> - \<lfloor>multiply (startTime d) (real (sampleRate ab))\<rfloor>)
                (replicate (nat (\<lfloor>multiply (endTime d) (real (sampleRate ab))\<rfloor>
                     - \<lfloor>multiply (startTime d) (real (sampleRate ab))\<rfloor>)) (Num 0)))
               (channelData ab)\<rparr>,
          a_words = words d\<rparr>"
  using assms
  by (simp add: extractSegment_def Let_def createBuffer_Inr numberOfChannels_def zip_replicate_map)

lemma extractSegment_format:
  assumes "extractSegment multiply ab i d = Inr a"
  shows "numberOfChannels (buffer a) = numberOfChannels ab \<and> sampleRate (buffer a) = sampleRate ab"
proof -
  obtain b where b: "createBuffer (numberOfChannels ab)
      (\<lfloor>multiply (endTime d) (real (sampleRate ab))\<rfloor> - \<lfloor>multiply (startTime d) (real (sampleRate ab))\<rfloor>) (sampleRate ab) = Inr b"
    using assms by (auto simp: extractSegment_def Let_def split: sum.splits)
  from createBuffer_shape [OF b] assms b show ?thesis
    by (auto simp: extractSegment_def Let_def numberOfChannels_def)
qed

lemma extractFrom_Inr_D:
  "extractFrom multiply ab i ds = Inr as \<Longrightarrow>
     length as = length ds \<and> (\<forall>k < length ds. extractSegment multiply ab (i + k) (ds ! k) = Inr (as ! k))"
proof (induction ds arbitrary: i as)
  case Nil
  then show ?case by auto
next
  case (Cons d ds)
  from Cons.prems obtain a rest where a: "extractSegment multiply ab i d = Inr a"
    and r: "extractFrom multiply ab (i + 1) ds = Inr rest" and as: "as = a # rest"
    by (auto split: sum.splits)
  from Cons.IH [OF r] have len: "length rest = length ds"
    and nth: "\<And>k. k < length ds \<Longrightarrow> extractSegment multiply ab (i + 1 + k) (ds ! k) = Inr (rest ! k)"
    by auto
  have "extractSegment multiply ab (i + k) ((d # ds) ! k) = Inr (as ! k)" if "k < length (d # ds)" for k
  proof (cases k)
    case 0
    with a as show ?thesis by simp
  next
    case (Suc k')
    with that nth [of k'] as show ?thesis by simp
  qed
  with len as show ?case by simp
qed

lemma extractFrom_Inr_I:
  "(\<And>k. k < length ds \<Longrightarrow> \<exists>a. extractSegment multiply ab (i + k) (ds ! k) = Inr a) \<Longrightarrow>
   \<exists>as. extractFrom multiply ab i ds = Inr as"
proof (induction ds arbitrary: i)
  case Nil
  then show ?case by simp
next
  case (Cons d ds)
  from Cons.prems [of 0] obtain a where a: "extractSegment multiply ab i d = Inr a" by auto
  have "\<exists>a. extractSegment multiply ab (i + 1 + k) (ds ! k) = Inr a" if "k < length ds" for k
    using Cons.prems [of "Suc k"] that by simp
  from Cons.IH [OF this] obtain rest where "extractFrom multiply ab (i + 1) ds = Inr rest" by blast
  with a show ?case by simp
qed

lemma extract_all_Inr:
  assumes ch: "0 < numberOfChannels ab"
    and ok: "\<forall>d \<in> set ds.
        1 \<le> \<lfloor>multiply (endTime d) (real (sampleRate ab))\<rfloor> - \<lfloor>multiply (startTime d) (real (sampleRate ab))\<rfloor>
      \<and> \<lfloor>multiply (endTime d) (real (sampleRate ab))\<rfloor> - \<lfloor>multiply (startTime d) (real (sampleRate ab))\<rfloor> < 2 ^ 32"
  shows "\<exists>as. extractSegmentsFromTimestamps multiply ab ds = Inr as \<and> length as = length ds \<and>
     (\<forall>k < length ds. channelData (buffer (as ! k)) =
         map (\<lambda>src. copySamples src \<lfloor>multiply (startTime (ds ! k)) (real (sampleRate ab))\<rfloor>
                (\<lfloor>multiply (endTime (ds ! k)) (real (sampleRate ab))\<rfloor> - \<lfloor>multiply (startTime (ds ! k)) (real (sampleRate ab))\<rfloor>)
                (replicate (nat (\<lfloor>multiply (endTime (ds ! k)) (real (sampleRate ab))\<rfloor>
                     - \<lfloor>multiply (startTime (ds ! k)) (real (sampleRate ab))\<rfloor>)) (Num 0)))
               (channelData ab))"
proof -
  have one: "extractSegment multiply ab i (ds ! k) =
     Inr \<lparr>a_id = i + 1, a_startTime = startTime (ds ! k), a_endTime = endTime (ds ! k),
          a_duration = endTime (ds ! k) - startTime (ds ! k), a_text = s_text (ds ! k),
          buffer = \<lparr>sampleRate = sampleRate ab,
             channelData = map (\<lambda>src. copySamples src \<lfloor>multiply (startTime (ds ! k)) (real (sampleRate ab))\<rfloor>
                (\<lfloor>multiply (endTime (ds ! k)) (real (sampleRate ab))\<rfloor> - \<lfloor>multiply (startTime (ds ! k)) (real (sampleRate ab))\<rfloor>)
                (replicate (nat (\<lfloor>multiply (endTime (ds ! k)) (real (sampleRate ab))\<rfloor>
                     - \<lfloor>multiply (startTime (ds ! k)) (real (sampleRate ab))\<rfloor>)) (Num 0)))
               (channelData ab)\<rparr>,
          a_words = words (ds ! k)\<rparr>" if "k < length ds" for k i
    using that ok by (intro extractSegment_Inr [where multiply = multiply, OF ch]) auto
  then have "\<exists>a. extractSegment multiply ab (0 + k) (ds ! k) = Inr a" if "k < length ds" for k
    using that by blast
  from extractFrom_Inr_I [of ds multiply ab 0, OF this] obtain as where as: "extractFrom multiply ab 0 ds = Inr as"
    by blast
  from extractFrom_Inr_D [OF as] have len: "length as = length ds"
    and nth: "\<And>k. k < length ds \<Longrightarrow> extractSegment multiply ab (0 + k) (ds ! k) = Inr (as ! k)" by auto
  have "channelData (buffer (as ! k)) =
         map (\<lambda>src. copySamples src \<lfloor>multiply (startTime (ds ! k)) (real (sampleRate ab))\<rfloor>
                (\<lfloor>multiply (endTime (ds ! k)) (real (sampleRate ab))\<rfloor> - \<lfloor>multiply (startTime (ds ! k)) (real (sampleRate ab))\<rfloor>)
                (replicate (nat (\<lfloor>multiply (endTime (ds ! k)) (real (sampleRate ab))\<rfloor>
                     - \<lfloor>multiply (startTime (ds ! k)) (real (sampleRate ab))\<rfloor>)) (Num 0)))
               (channelData ab)" if "k < length ds" for k
    using nth [OF that] one [OF that, of "0 + k"] by simp
  with as len show ?thesis by (simp add: extractSegmentsFromTimestamps_def)
qed

text \<open>
  How far the frame count can be from \<open>(end - start) * rate\<close>: less than one frame plus
  the errors of the two computed products.
\<close>

lemma floor_diff_close:
  fixes e s r pe ps err :: real
  assumes "\<bar>pe - e * r\<bar> \<le> err" and "\<bar>ps - s * r\<bar> \<le> err"
  shows "\<bar>real_of_int (\<lfloor>pe\<rfloor> - \<lfloor>ps\<rfloor>) - (e - s) * r\<bar> < 1 + 2 * err"
proof -
  have "(e - s) * r = e * r - s * r" by (simp add: algebra_simps)
  then show ?thesis using assms by linarith
qed

lemma extract_length_close_to_duration:
  assumes "0 < numberOfChannels ab"
    and "\<forall>d \<in> set ds.
        1 \<le> \<lfloor>multiply (endTime d) (real (sampleRate ab))\<rfloor> - \<lfloor>multiply (startTime d) (real (sampleRate ab))\<rfloor>
      \<and> \<lfloor>multiply (endTime d) (real (sampleRate ab))\<rfloor> - \<lfloor>multiply (startTime d) (real (sampleRate ab))\<rfloor> < 2 ^ 32"
    and "\<forall>d \<in> set ds.
        \<bar>multiply (endTime d) (real (sampleRate ab)) - endTime d * real (sampleRate ab)\<bar> \<le> err
      \<and> \<bar>multiply (startTime d) (real (sampleRate ab)) - startTime d * real (sampleRate ab)\<bar> \<le> err"
  shows "\<exists>as. extractSegmentsFromTimestamps multiply ab ds = Inr as \<and> length as = length ds \<and>
     (\<forall>k < length ds. \<forall>c \<in> set (channelData (buffer (as ! k))).
        \<bar>real (length c) - (endTime (ds ! k) - startTime (ds ! k)) * real (sampleRate ab)\<bar>
          < 1 + 2 * err)"
proof -
  from extract_all_Inr [where multiply = multiply, OF assms(1,2)] obtain as where as: "extractSegmentsFromTimestamps multiply ab ds = Inr as"
    "length as = length ds"
    and cd: "\<And>k. k < length ds \<Longrightarrow> channelData (buffer (as ! k)) =
         map (\<lambda>src. copySamples src \<lfloor>multiply (startTime (ds ! k)) (real (sampleRate ab))\<rfloor>
                (\<lfloor>multiply (endTime (ds ! k)) (real (sampleRate ab))\<rfloor> - \<lfloor>multiply (startTime (ds ! k)) (real (sampleRate ab))\<rfloor>)
                (replicate (nat (\<lfloor>multiply (endTime (ds ! k)) (real (sampleRate ab))\<rfloor>
                     - \<lfloor>multiply (startTime (ds ! k)) (real (sampleRate ab))\<rfloor>)) (Num 0)))
               (channelData ab)" by blast
  have "\<bar>real (length c) - (endTime (ds ! k) - startTime (ds ! k)) * real (sampleRate ab)\<bar>
          < 1 + 2 * err"
    if "k < length ds" "c \<in> set (channelData (buffer (as ! k)))" for k c
  proof -
    have "1 \<le> \<lfloor>multiply (endTime (ds ! k)) (real (sampleRate ab))\<rfloor> - \<lfloor>multiply (startTime (ds ! k)) (real (sampleRate ab))\<rfloor>"
      using assms(2) that(1) by simp
    with that(2) have l: "int (length c) =
           \<lfloor>multiply (endTime (ds ! k)) (real (sampleRate ab))\<rfloor> - \<lfloor>multiply (startTime (ds ! k)) (real (sampleRate ab))\<rfloor>"
      unfolding cd [OF that(1)] by auto
    have "real (length c) = real_of_int (int (length c))" by simp
    also have "\<dots> = real_of_int (\<lfloor>multiply (endTime (ds ! k)) (real (sampleRate ab))\<rfloor> - \<lfloor>multiply (startTime (ds ! k)) (real (sampleRate ab))\<rfloor>)"
      by (simp only: l)
    finally have r: "real (length c) = real_of_int (\<lfloor>multiply (endTime (ds ! k)) (real (sampleRate ab))\<rfloor> - \<lfloor>multiply (startTime (ds ! k)) (real (sampleRate ab))\<rfloor>)" .
    have "\<bar>multiply (endTime (ds ! k)) (real (sampleRate ab)) - endTime (ds ! k) * real (sampleRate ab)\<bar> \<le> err"
      "\<bar>multiply (startTime (ds ! k)) (real (sampleRate ab)) - startTime (ds ! k) * real (sampleRate ab)\<bar> \<le> err"
      using assms(3) that(1) by simp_all
    from floor_diff_close [OF this] show ?thesis unfolding r .
  qed
  with as show ?thesis by blast
qed

lemma extract_single:
  assumes "0 < numberOfChannels ab"
    and "1 \<le> \<lfloor>multiply (endTime d) (real (sampleRate ab))\<rfloor> - \<lfloor>multiply (startTime d) (real (sampleRate ab))\<rfloor>"
    and "\<lfloor>multiply (endTime d) (real (sampleRate ab))\<rfloor> - \<lfloor>multiply (startTime d) (real (sampleRate ab))\<rfloor> < 2 ^ 32"
  shows "\<exists>a. extractSegmentsFromTimestamps multiply ab [d] = Inr [a] \<and>
     sampleRate (buffer a) = sampleRate ab \<and>
     channelData (buffer a) =
       map (\<lambda>src. copySamples src \<lfloor>multiply (startTime d) (real (sampleRate ab))\<rfloor>
                (\<lfloor>multiply (endTime d) (real (sampleRate ab))\<rfloor> - \<lfloor>multiply (startTime d) (real (sampleRate ab))\<rfloor>)
                (replicate (nat (\<lfloor>multiply (endTime d) (real (sampleRate ab))\<rfloor>
                     - \<lfloor>multiply (startTime d) (real (sampleRate ab))\<rfloor>)) (Num 0)))
               (channelData ab)"
  by (simp add: extractSegmentsFromTimestamps_def
      extractSegment_Inr [where multiply = multiply and ab = ab and d = d, OF assms])

lemma extractSegments_format:
  assumes "extractSegmentsFromTimestamps multiply ab ds = Inr as" and "a \<in> set as"
  shows "numberOfChannels (buffer a) = numberOfChannels ab \<and> sampleRate (buffer a) = sampleRate ab"
proof -
  from assms(2) obtain k where k: "k < length as" "as ! k = a" by (auto simp: in_set_conv_nth)
  from extractFrom_Inr_D [of multiply ab 0 ds as] assms(1) k
  have "extractSegment multiply ab (0 + k) (ds ! k) = Inr a"
    by (auto simp: extractSegmentsFromTimestamps_def)
  from extractSegment_format [OF this] show ?thesis .
qed

lemma convert_format:
  assumes "convertAudioTo16kMono render orig = Inr ab"
  shows "numberOfChannels ab = 1 \<and> sampleRate ab = 16000"
  using assms
  by (auto simp: convertAudioTo16kMono_def Let_def numberOfChannels_def createBuffer_def
      split: if_splits sum.splits)

lemma accepted_length_pos:
  fixes e s m r pe ps :: real
  assumes "m \<le> e - s" and "2 \<le> m * r" and "0 \<le> r"
    and "\<bar>pe - e * r\<bar> \<le> 1 / 4" and "\<bar>ps - s * r\<bar> \<le> 1 / 4"
  shows "1 \<le> \<lfloor>pe\<rfloor> - \<lfloor>ps\<rfloor>"
proof -
  have "m * r \<le> (e - s) * r" using assms(1,3) by (rule mult_right_mono)
  then have "s * r + 2 \<le> e * r" using assms(2) by (simp add: algebra_simps)
  then have "ps + 1 \<le> pe" using assms(4,5) by linarith
  then have "\<lfloor>ps + 1\<rfloor> \<le> \<lfloor>pe\<rfloor>" by (rule floor_mono)
  then show ?thesis by simp
qed

text \<open>
  Every segment that the detector accepts gets its buffer, when the minimum duration spans
  at least two frames of the source (the least setting of 1 second does, at any rate) and
  the computed products are within a quarter of a frame of the exact ones.
\<close>

lemma accepted_segments_extract:
  assumes "0 < numberOfChannels ab"
    and "2 \<le> minSegmentDuration st * real (sampleRate ab)"
    and "\<forall>d \<in> set (findSegmentsByNumberPattern st tr).
           \<bar>multiply (endTime d) (real (sampleRate ab)) - endTime d * real (sampleRate ab)\<bar> \<le> 1 / 4
         \<and> \<bar>multiply (startTime d) (real (sampleRate ab)) - startTime d * real (sampleRate ab)\<bar> \<le> 1 / 4"
    and "\<forall>d \<in> set (findSegmentsByNumberPattern st tr).
           \<lfloor>multiply (endTime d) (real (sampleRate ab))\<rfloor> - \<lfloor>multiply (startTime d) (real (sampleRate ab))\<rfloor> < 2 ^ 32"
  shows "\<exists>as. extractSegmentsFromTimestamps multiply ab (findSegmentsByNumberPattern st tr) = Inr as
           \<and> length as = length (findSegmentsByNumberPattern st tr)"
proof -
  have "1 \<le> \<lfloor>multiply (endTime d) (real (sampleRate ab))\<rfloor> - \<lfloor>multiply (startTime d) (real (sampleRate ab))\<rfloor>"
    if "d \<in> set (findSegmentsByNumberPattern st tr)" for d
  proof (rule accepted_length_pos)
    show "minSegmentDuration st \<le> endTime d - startTime d"
      using findSegments_long_enough [OF that] .
    show "2 \<le> minSegmentDuration st * real (sampleRate ab)" using assms(2) .
    show "0 \<le> real (sampleRate ab)" by simp
    show "\<bar>multiply (endTime d) (real (sampleRate ab)) - endTime d * real (sampleRate ab)\<bar> \<le> 1 / 4"
      "\<bar>multiply (startTime d) (real (sampleRate ab)) - startTime d * real (sampleRate ab)\<bar> \<le> 1 / 4"
      using assms(3) that by simp_all
  qed
  with assms(4) have "\<forall>d \<in> set (findSegmentsByNumberPattern st tr).
        1 \<le> \<lfloor>multiply (endTime d) (real (sampleRate ab))\<rfloor> - \<lfloor>multiply (startTime d) (real (sampleRate ab))\<rfloor>
      \<and> \<lfloor>multiply (endTime d) (real (sampleRate ab))\<rfloor> - \<lfloor>multiply (startTime d) (real (sampleRate ab))\<rfloor> < 2 ^ 32"
    by simp
  from extract_all_Inr [where multiply = multiply, OF assms(1) this] show ?thesis by blast
qed

text \<open>
  C3, as amended. Extraction reads \<^verbatim>\<open>this.audioBuffer\<close>: every buffer it returns has the
  channel count and the sample rate of that buffer. Where \<^verbatim>\<open>this.audioBuffer\<close> was stored
  by \<^verbatim>\<open>convertAudioTo16kMono\<close>, it is the mono 16 kHz copy made for transcription, and
  every returned buffer is mono at 16 kHz.
\<close>

theorem extract_keeps_format_of_audioBuffer:
  assumes "extractSegmentsFromTimestamps multiply ab ds = Inr as" and "a \<in> set as"
  shows "numberOfChannels (buffer a) = numberOfChannels ab \<and> sampleRate (buffer a) = sampleRate ab
    \<and> (\<forall>render originalBuffer. convertAudioTo16kMono render originalBuffer = Inr ab \<longrightarrow>
          numberOfChannels (buffer a) = 1 \<and> sampleRate (buffer a) = 16000)"
  using extractSegments_format [OF assms] convert_format [of _ _ ab] by auto

text \<open>
  The theorem at three seconds of stereo silence at 44.1 kHz held in
  \<^verbatim>\<open>this.audioBuffer\<close> as decoded, and one descriptor from 0 to 2.6 seconds.
\<close>

theorem extract_keeps_format_witness:
  "\<exists>a. extractSegmentsFromTimestamps (\<lambda>x y. x * y)
          \<lparr>sampleRate = 44100, channelData = [replicate 132300 (Num 0), replicate 132300 (Num 0)]\<rparr>
          [\<lparr>startTime = 0, endTime = 26/10, words = [], s_text = ''105 hello world'', number = 105\<rparr>]
          = Inr [a]
        \<and> numberOfChannels (buffer a) = 2 \<and> sampleRate (buffer a) = 44100"
proof -
  let ?ab = "\<lparr>sampleRate = 44100, channelData = [replicate 132300 (Num 0), replicate 132300 (Num 0)]\<rparr>"
  let ?d = "\<lparr>startTime = 0, endTime = 26/10, words = [], s_text = ''105 hello world'', number = 105\<rparr>"
  have n: "numberOfChannels ?ab = 2" by (simp add: numberOfChannels_def)
  have "\<exists>a. extractSegmentsFromTimestamps (\<lambda>x y. x * y) ?ab [?d] = Inr [a] \<and> sampleRate (buffer a) = sampleRate ?ab
     \<and> channelData (buffer a) =
       map (\<lambda>src. copySamples src \<lfloor>startTime ?d * real (sampleRate ?ab)\<rfloor>
                (\<lfloor>endTime ?d * real (sampleRate ?ab)\<rfloor> - \<lfloor>startTime ?d * real (sampleRate ?ab)\<rfloor>)
                (replicate (nat (\<lfloor>endTime ?d * real (sampleRate ?ab)\<rfloor>
                     - \<lfloor>startTime ?d * real (sampleRate ?ab)\<rfloor>)) (Num 0)))
               (channelData ?ab)"
    using n by (intro extract_single [where multiply = "\<lambda>x y. x * y"]) simp_all
  then obtain a where a: "extractSegmentsFromTimestamps (\<lambda>x y. x * y) ?ab [?d] = Inr [a]" by blast
  from extract_keeps_format_of_audioBuffer [OF a, of a] n a show ?thesis by simp
qed

text \<open>
  C3 as stated fails where the file went through \<^verbatim>\<open>convertAudioTo16kMono\<close>: the decoded
  audio below is stereo at 44.1 kHz (three seconds of silence, rendered to silence), and the
  buffer extracted for the descriptor from 0 to 2.6 seconds is mono at 16 kHz.
\<close>

theorem converted_pipeline_loses_format:
  "numberOfChannels \<lparr>sampleRate = 44100,
        channelData = [replicate 132300 (Num 0), replicate 132300 (Num 0)]\<rparr> = 2
   \<and> (case convertAudioTo16kMono (\<lambda>b n. replicate n (Num 0))
           \<lparr>sampleRate = 44100,
            channelData = [replicate 132300 (Num 0), replicate 132300 (Num 0)]\<rparr> of
         Inl e \<Rightarrow> False
       | Inr ab \<Rightarrow>
           (case extractSegmentsFromTimestamps (\<lambda>x y. x * y) ab
              [\<lparr>startTime = 0, endTime = 26/10, words = [], s_text = ''105 hello world'',
                number = 105\<rparr>] of
              Inl e \<Rightarrow> False
            | Inr as \<Rightarrow> length as = 1 \<and> numberOfChannels (buffer (as ! 0)) = 1
                  \<and> sampleRate (buffer (as ! 0)) = 16000))"
proof -
  let ?orig = "\<lparr>sampleRate = 44100,
        channelData = [replicate 132300 (Num 0), replicate 132300 (Num 0)]\<rparr>"
  let ?d = "\<lparr>startTime = 0, endTime = 26/10, words = [], s_text = ''105 hello world'',
                number = 105\<rparr>"
  have n: "numberOfChannels ?orig = 2" by (simp add: numberOfChannels_def)
  have l: "bufferLength ?orig = 132300" by (simp add: bufferLength_def)
  obtain ab where ab: "convertAudioTo16kMono (\<lambda>b n. replicate n (Num 0)) ?orig = Inr ab"
    using n l by (simp add: convertAudioTo16kMono_def createBuffer_def Let_def)
  from convert_format [OF ab] have f: "numberOfChannels ab = 1" "sampleRate ab = 16000" by auto
  have "\<exists>a. extractSegmentsFromTimestamps (\<lambda>x y. x * y) ab [?d] = Inr [a] \<and> sampleRate (buffer a) = sampleRate ab
     \<and> channelData (buffer a) =
       map (\<lambda>src. copySamples src \<lfloor>startTime ?d * real (sampleRate ab)\<rfloor>
                (\<lfloor>endTime ?d * real (sampleRate ab)\<rfloor> - \<lfloor>startTime ?d * real (sampleRate ab)\<rfloor>)
                (replicate (nat (\<lfloor>endTime ?d * real (sampleRate ab)\<rfloor>
                     - \<lfloor>startTime ?d * real (sampleRate ab)\<rfloor>)) (Num 0)))
               (channelData ab)"
    using f by (intro extract_single [where multiply = "\<lambda>x y. x * y"]) simp_all
  then obtain a where a: "extractSegmentsFromTimestamps (\<lambda>x y. x * y) ab [?d] = Inr [a]" by blast
  from extractSegments_format [OF a, of a] f
  have "numberOfChannels (buffer a) = 1" "sampleRate (buffer a) = 16000" by auto
  with n ab a show ?thesis by simp
qed

text \<open>
  C4, as amended. For descriptors \<open>d\<close> whose frame count
  \<open>\<lfloor>d.end * rate\<rfloor> - \<lfloor>d.start * rate\<rfloor>\<close>, on the two products as the platform computes
  them, is a valid buffer length (at least 1, below \<open>2 ^ 32\<close>), extraction returns one buffer
  per descriptor, and each of its channels has exactly that many samples. (Nothing ties
  the count to the rounded \<open>(d.end - d.start) * rate\<close>.)
\<close>

theorem extract_length_floor_difference:
  assumes "0 < numberOfChannels ab"
    and "\<forall>d \<in> set ds.
        1 \<le> \<lfloor>multiply (endTime d) (real (sampleRate ab))\<rfloor> - \<lfloor>multiply (startTime d) (real (sampleRate ab))\<rfloor>
      \<and> \<lfloor>multiply (endTime d) (real (sampleRate ab))\<rfloor> - \<lfloor>multiply (startTime d) (real (sampleRate ab))\<rfloor> < 2 ^ 32"
  shows "\<exists>as. extractSegmentsFromTimestamps multiply ab ds = Inr as \<and> length as = length ds \<and>
     (\<forall>k < length ds. \<forall>c \<in> set (channelData (buffer (as ! k))).
         int (length c) =
           \<lfloor>multiply (endTime (ds ! k)) (real (sampleRate ab))\<rfloor> - \<lfloor>multiply (startTime (ds ! k)) (real (sampleRate ab))\<rfloor>)"
proof -
  from extract_all_Inr [where multiply = multiply, OF assms] obtain as where as: "extractSegmentsFromTimestamps multiply ab ds = Inr as"
    "length as = length ds"
    and cd: "\<And>k. k < length ds \<Longrightarrow> channelData (buffer (as ! k)) =
         map (\<lambda>src. copySamples src \<lfloor>multiply (startTime (ds ! k)) (real (sampleRate ab))\<rfloor>
                (\<lfloor>multiply (endTime (ds ! k)) (real (sampleRate ab))\<rfloor> - \<lfloor>multiply (startTime (ds ! k)) (real (sampleRate ab))\<rfloor>)
                (replicate (nat (\<lfloor>multiply (endTime (ds ! k)) (real (sampleRate ab))\<rfloor>
                     - \<lfloor>multiply (startTime (ds ! k)) (real (sampleRate ab))\<rfloor>)) (Num 0)))
               (channelData ab)" by blast
  have "int (length c) =
           \<lfloor>multiply (endTime (ds ! k)) (real (sampleRate ab))\<rfloor> - \<lfloor>multiply (startTime (ds ! k)) (real (sampleRate ab))\<rfloor>"
    if "k < length ds" "c \<in> set (channelData (buffer (as ! k)))" for k c
  proof -
    have "1 \<le> \<lfloor>multiply (endTime (ds ! k)) (real (sampleRate ab))\<rfloor> - \<lfloor>multiply (startTime (ds ! k)) (real (sampleRate ab))\<rfloor>"
      using assms(2) that(1) by simp
    with that(2) show ?thesis unfolding cd [OF that(1)] by auto
  qed
  with as show ?thesis by blast
qed

text \<open>
  The theorem at four seconds of mono silence at 16 kHz and the descriptor from 1.00005 to
  3.00008 seconds, with the exact product (the products 16000.8 and 48001.28 are far from
  a whole number, so that their rounding does not change the floors): 32001 samples.
\<close>

theorem extract_length_floor_difference_witness:
  "0 < numberOfChannels \<lparr>sampleRate = 16000, channelData = [replicate 64000 (Num 0)]\<rparr>
   \<and> 1 \<le> \<lfloor>(300008/100000) * real (16000::nat)\<rfloor> - \<lfloor>(100005/100000) * real (16000::nat)\<rfloor>
   \<and> \<lfloor>(300008/100000) * real (16000::nat)\<rfloor> - \<lfloor>(100005/100000) * real (16000::nat)\<rfloor>
        < (2 ^ 32 :: int)
   \<and> (\<exists>a. extractSegmentsFromTimestamps (\<lambda>x y. x * y)
          \<lparr>sampleRate = 16000, channelData = [replicate 64000 (Num 0)]\<rparr>
          [\<lparr>startTime = 100005/100000, endTime = 300008/100000, words = [],
            s_text = ''7 seven'', number = 7\<rparr>]
          = Inr [a]
        \<and> map length (channelData (buffer a)) = [32001])"
proof -
  let ?ab = "\<lparr>sampleRate = 16000, channelData = [replicate 64000 (Num 0)]\<rparr>"
  let ?d = "\<lparr>startTime = 100005/100000, endTime = 300008/100000, words = [],
            s_text = ''7 seven'', number = 7\<rparr>"
  have fe: "\<lfloor>(300008/100000) * real (16000::nat)\<rfloor> = 48001" by simp
  have fs: "\<lfloor>(100005/100000) * real (16000::nat)\<rfloor> = 16000" by simp
  have h1: "0 < numberOfChannels ?ab" by (simp add: numberOfChannels_def)
  have h2: "\<forall>d \<in> set [?d].
        1 \<le> \<lfloor>endTime d * real (sampleRate ?ab)\<rfloor> - \<lfloor>startTime d * real (sampleRate ?ab)\<rfloor>
      \<and> \<lfloor>endTime d * real (sampleRate ?ab)\<rfloor> - \<lfloor>startTime d * real (sampleRate ?ab)\<rfloor> < 2 ^ 32"
    by simp
  from extract_length_floor_difference [where multiply = "\<lambda>x y. x * y", OF h1 h2] obtain as where
    as: "extractSegmentsFromTimestamps (\<lambda>x y. x * y) ?ab [?d] = Inr as" "length as = 1"
    and l: "\<forall>c \<in> set (channelData (buffer (as ! 0))). int (length c) = 32001"
    by auto
  from as(2) obtain a where a: "as = [a]" by (cases as) auto
  have "length (channelData (buffer a)) = 1"
    using extractSegments_format [of "\<lambda>x y. x * y" ?ab "[?d]" as a] as(1) a
    by (simp add: numberOfChannels_def)
  then obtain c where c: "channelData (buffer a) = [c]"
    by (cases "channelData (buffer a)") auto
  with l a have "length c = 32001" by simp
  with as a c h1 fe fs show ?thesis by simp
qed

text \<open>
  C4 as stated fails. The descriptor from 1.00005 to 3.00008 seconds at 16 kHz gets
  \<open>48001 - 16000 = 32001\<close> samples, while \<open>(end - start) * rate = 32000.48\<close> rounds to
  32000. (The products 16000.8 and 48001.28 are far from a whole number: the exact
  product taken here and the platform's rounded product have the same floors.)
\<close>

theorem extract_length_not_rounded:
  "(100005/100000 :: real) < 300008/100000
   \<and> (\<exists>a. extractSegmentsFromTimestamps (\<lambda>x y. x * y)
          \<lparr>sampleRate = 16000, channelData = [replicate 64000 (Num 0)]\<rparr>
          [\<lparr>startTime = 100005/100000, endTime = 300008/100000, words = [],
            s_text = ''7 seven'', number = 7\<rparr>]
          = Inr [a]
        \<and> map length (channelData (buffer a)) = [32001])
   \<and> round ((300008/100000 - 100005/100000) * real (16000::nat)) = 32000"
proof -
  let ?ab = "\<lparr>sampleRate = 16000, channelData = [replicate 64000 (Num 0)]\<rparr>"
  let ?d = "\<lparr>startTime = 100005/100000, endTime = 300008/100000, words = [],
            s_text = ''7 seven'', number = 7\<rparr>"
  have n: "numberOfChannels ?ab = 1" by (simp add: numberOfChannels_def)
  have fe: "\<lfloor>(300008/100000) * real (16000::nat)\<rfloor> = 48001" by simp
  have fs: "\<lfloor>(100005/100000) * real (16000::nat)\<rfloor> = 16000" by simp
  have "\<exists>a. extractSegmentsFromTimestamps (\<lambda>x y. x * y) ?ab [?d] = Inr [a] \<and> sampleRate (buffer a) = sampleRate ?ab
     \<and> channelData (buffer a) =
       map (\<lambda>src. copySamples src \<lfloor>startTime ?d * real (sampleRate ?ab)\<rfloor>
                (\<lfloor>endTime ?d * real (sampleRate ?ab)\<rfloor> - \<lfloor>startTime ?d * real (sampleRate ?ab)\<rfloor>)
                (replicate (nat (\<lfloor>endTime ?d * real (sampleRate ?ab)\<rfloor>
                     - \<lfloor>startTime ?d * real (sampleRate ?ab)\<rfloor>)) (Num 0)))
               (channelData ?ab)"
    using n fe fs by (intro extract_single [where multiply = "\<lambda>x y. x * y"]) simp_all
  then obtain a where a: "extractSegmentsFromTimestamps (\<lambda>x y. x * y) ?ab [?d] = Inr [a]"
    and c: "map length (channelData (buffer a)) = [32001]"
    using fe fs by auto
  have r: "round ((300008/100000 - 100005/100000) * real (16000::nat)) = 32000"
    by (simp add: round_def)
  from a c r show ?thesis by simp
qed

text \<open>
  C5. For descriptors whose frame count is a valid buffer length, extraction returns one
  buffer per descriptor, with as many channels as the source, and each channel of the buffer
  for \<open>d\<close> has \<open>\<lfloor>d.end * rate\<rfloor> - \<lfloor>d.start * rate\<rfloor>\<close> samples (the products as the
  platform computes them).
\<close>

theorem extract_length_floor:
  assumes "0 < numberOfChannels ab"
    and "\<forall>d \<in> set ds.
        1 \<le> \<lfloor>multiply (endTime d) (real (sampleRate ab))\<rfloor> - \<lfloor>multiply (startTime d) (real (sampleRate ab))\<rfloor>
      \<and> \<lfloor>multiply (endTime d) (real (sampleRate ab))\<rfloor> - \<lfloor>multiply (startTime d) (real (sampleRate ab))\<rfloor> < 2 ^ 32"
  shows "\<exists>as. extractSegmentsFromTimestamps multiply ab ds = Inr as \<and> length as = length ds \<and>
     (\<forall>k < length ds.
        numberOfChannels (buffer (as ! k)) = numberOfChannels ab \<and>
        (\<forall>c \<in> set (channelData (buffer (as ! k))).
           int (length c) =
             \<lfloor>multiply (endTime (ds ! k)) (real (sampleRate ab))\<rfloor> - \<lfloor>multiply (startTime (ds ! k)) (real (sampleRate ab))\<rfloor>))"
proof -
  from extract_all_Inr [where multiply = multiply, OF assms] obtain as where as: "extractSegmentsFromTimestamps multiply ab ds = Inr as"
    "length as = length ds"
    and cd: "\<And>k. k < length ds \<Longrightarrow> channelData (buffer (as ! k)) =
         map (\<lambda>src. copySamples src \<lfloor>multiply (startTime (ds ! k)) (real (sampleRate ab))\<rfloor>
                (\<lfloor>multiply (endTime (ds ! k)) (real (sampleRate ab))\<rfloor> - \<lfloor>multiply (startTime (ds ! k)) (real (sampleRate ab))\<rfloor>)
                (replicate (nat (\<lfloor>multiply (endTime (ds ! k)) (real (sampleRate ab))\<rfloor>
                     - \<lfloor>multiply (startTime (ds ! k)) (real (sampleRate ab))\<rfloor>)) (Num 0)))
               (channelData ab)" by blast
  have "numberOfChannels (buffer (as ! k)) = numberOfChannels ab \<and>
        (\<forall>c \<in> set (channelData (buffer (as ! k))).
           int (length c) =
             \<lfloor>multiply (endTime (ds ! k)) (real (sampleRate ab))\<rfloor> - \<lfloor>multiply (startTime (ds ! k)) (real (sampleRate ab))\<rfloor>)"
    if "k < length ds" for k
  proof -
    have "1 \<le> \<lfloor>multiply (endTime (ds ! k)) (real (sampleRate ab))\<rfloor> - \<lfloor>multiply (startTime (ds ! k)) (real (sampleRate ab))\<rfloor>"
      using assms(2) that by simp
    then show ?thesis unfolding numberOfChannels_def cd [OF that] by auto
  qed
  with as show ?thesis by blast
qed

text \<open>
  The theorem at a source of three samples at 16 kHz and the descriptor from 0 to 2.6
  seconds.
\<close>

theorem extract_length_floor_witness:
  "0 < numberOfChannels \<lparr>sampleRate = 16000, channelData = [[Num 0, Num (1/2), Num 1]]\<rparr>
   \<and> 1 \<le> \<lfloor>(26/10) * real (16000::nat)\<rfloor> - \<lfloor>0 * real (16000::nat)\<rfloor>
   \<and> \<lfloor>(26/10) * real (16000::nat)\<rfloor> - \<lfloor>0 * real (16000::nat)\<rfloor> < (2 ^ 32 :: int)
   \<and> (\<exists>a. extractSegmentsFromTimestamps (\<lambda>x y. x * y)
          \<lparr>sampleRate = 16000, channelData = [[Num 0, Num (1/2), Num 1]]\<rparr>
          [\<lparr>startTime = 0, endTime = 26/10, words = [], s_text = ''105 hello world'', number = 105\<rparr>]
          = Inr [a]
        \<and> map length (channelData (buffer a)) = [41600])"
proof -
  let ?ab = "\<lparr>sampleRate = 16000, channelData = [[Num 0, Num (1/2), Num 1]]\<rparr>"
  let ?d = "\<lparr>startTime = 0, endTime = 26/10, words = [], s_text = ''105 hello world'', number = 105\<rparr>"
  have f: "\<lfloor>(26/10) * real (16000::nat)\<rfloor> = 41600" by simp
  have h1: "0 < numberOfChannels ?ab" by (simp add: numberOfChannels_def)
  have h2: "\<forall>d \<in> set [?d].
        1 \<le> \<lfloor>endTime d * real (sampleRate ?ab)\<rfloor> - \<lfloor>startTime d * real (sampleRate ?ab)\<rfloor>
      \<and> \<lfloor>endTime d * real (sampleRate ?ab)\<rfloor> - \<lfloor>startTime d * real (sampleRate ?ab)\<rfloor> < 2 ^ 32"
    by simp
  from extract_length_floor [where multiply = "\<lambda>x y. x * y", OF h1 h2] obtain as where
    as: "extractSegmentsFromTimestamps (\<lambda>x y. x * y) ?ab [?d] = Inr as" "length as = 1"
    and l: "\<forall>c \<in> set (channelData (buffer (as ! 0))). int (length c) = 41600"
    by auto
  from as(2) obtain a where a: "as = [a]" by (cases as) auto
  have "length (channelData (buffer a)) = 1"
    using extractFrom_Inr_D [of "\<lambda>x y. x * y" ?ab 0 "[?d]" as] as(1) a extractSegment_format [of "\<lambda>x y. x * y" ?ab 0 ?d a]
    by (simp add: extractSegmentsFromTimestamps_def numberOfChannels_def)
  then obtain c where c: "channelData (buffer a) = [c]"
    by (cases "channelData (buffer a)") auto
  with l a have "length c = 41600" by simp
  with as a c h1 f show ?thesis by simp
qed

text \<open>
  C9. For descriptors whose frame count is a valid buffer length, extraction raises no
  error and returns one buffer per descriptor, with as many channels as the source and the
  full computed length in each channel. A position that falls past the end of the source
  holds 0; a position inside the source holds the source's sample.
\<close>

theorem extract_zero_fills:
  assumes "0 < numberOfChannels ab"
    and "\<forall>d \<in> set ds.
        1 \<le> \<lfloor>multiply (endTime d) (real (sampleRate ab))\<rfloor> - \<lfloor>multiply (startTime d) (real (sampleRate ab))\<rfloor>
      \<and> \<lfloor>multiply (endTime d) (real (sampleRate ab))\<rfloor> - \<lfloor>multiply (startTime d) (real (sampleRate ab))\<rfloor> < 2 ^ 32"
  shows "\<exists>as. extractSegmentsFromTimestamps multiply ab ds = Inr as \<and> length as = length ds \<and>
     (\<forall>k < length ds.
        length (channelData (buffer (as ! k))) = numberOfChannels ab \<and>
        (\<forall>ch < numberOfChannels ab.
           int (length (channelData (buffer (as ! k)) ! ch)) =
             \<lfloor>multiply (endTime (ds ! k)) (real (sampleRate ab))\<rfloor> - \<lfloor>multiply (startTime (ds ! k)) (real (sampleRate ab))\<rfloor>
         \<and> (\<forall>j < length (channelData (buffer (as ! k)) ! ch).
               (int (length (channelData ab ! ch)) \<le> \<lfloor>multiply (startTime (ds ! k)) (real (sampleRate ab))\<rfloor> + int j
                  \<longrightarrow> channelData (buffer (as ! k)) ! ch ! j = Num 0)
             \<and> (0 \<le> \<lfloor>multiply (startTime (ds ! k)) (real (sampleRate ab))\<rfloor> + int j
                  \<and> \<lfloor>multiply (startTime (ds ! k)) (real (sampleRate ab))\<rfloor> + int j < int (length (channelData ab ! ch))
                  \<longrightarrow> channelData (buffer (as ! k)) ! ch ! j =
                        channelData ab ! ch ! nat (\<lfloor>multiply (startTime (ds ! k)) (real (sampleRate ab))\<rfloor> + int j)))))"
proof -
  from extract_all_Inr [where multiply = multiply, OF assms] obtain as where as: "extractSegmentsFromTimestamps multiply ab ds = Inr as"
    "length as = length ds"
    and cd: "\<And>k. k < length ds \<Longrightarrow> channelData (buffer (as ! k)) =
         map (\<lambda>src. copySamples src \<lfloor>multiply (startTime (ds ! k)) (real (sampleRate ab))\<rfloor>
                (\<lfloor>multiply (endTime (ds ! k)) (real (sampleRate ab))\<rfloor> - \<lfloor>multiply (startTime (ds ! k)) (real (sampleRate ab))\<rfloor>)
                (replicate (nat (\<lfloor>multiply (endTime (ds ! k)) (real (sampleRate ab))\<rfloor>
                     - \<lfloor>multiply (startTime (ds ! k)) (real (sampleRate ab))\<rfloor>)) (Num 0)))
               (channelData ab)" by blast
  have "length (channelData (buffer (as ! k))) = numberOfChannels ab \<and>
        (\<forall>ch < numberOfChannels ab.
           int (length (channelData (buffer (as ! k)) ! ch)) =
             \<lfloor>multiply (endTime (ds ! k)) (real (sampleRate ab))\<rfloor> - \<lfloor>multiply (startTime (ds ! k)) (real (sampleRate ab))\<rfloor>
         \<and> (\<forall>j < length (channelData (buffer (as ! k)) ! ch).
               (int (length (channelData ab ! ch)) \<le> \<lfloor>multiply (startTime (ds ! k)) (real (sampleRate ab))\<rfloor> + int j
                  \<longrightarrow> channelData (buffer (as ! k)) ! ch ! j = Num 0)
             \<and> (0 \<le> \<lfloor>multiply (startTime (ds ! k)) (real (sampleRate ab))\<rfloor> + int j
                  \<and> \<lfloor>multiply (startTime (ds ! k)) (real (sampleRate ab))\<rfloor> + int j < int (length (channelData ab ! ch))
                  \<longrightarrow> channelData (buffer (as ! k)) ! ch ! j =
                        channelData ab ! ch ! nat (\<lfloor>multiply (startTime (ds ! k)) (real (sampleRate ab))\<rfloor> + int j))))"
    if k: "k < length ds" for k
  proof -
    have pos: "1 \<le> \<lfloor>multiply (endTime (ds ! k)) (real (sampleRate ab))\<rfloor> - \<lfloor>multiply (startTime (ds ! k)) (real (sampleRate ab))\<rfloor>"
      using assms(2) k by simp
    show ?thesis
      unfolding cd [OF k] using pos
      by (auto simp: numberOfChannels_def copySamples_nth typedGet_def)
  qed
  with as show ?thesis by blast
qed

text \<open>
  The theorem at a source of three samples at 16 kHz and the descriptor from 0 to 2.6
  seconds: 41600 samples, the third is the source's last sample, all later ones are 0.
\<close>

theorem extract_zero_fills_witness:
  "0 < numberOfChannels \<lparr>sampleRate = 16000, channelData = [[Num (1/4), Num (1/2), Num 1]]\<rparr>
   \<and> 1 \<le> \<lfloor>(26/10) * real (16000::nat)\<rfloor> - \<lfloor>0 * real (16000::nat)\<rfloor>
   \<and> \<lfloor>(26/10) * real (16000::nat)\<rfloor> - \<lfloor>0 * real (16000::nat)\<rfloor> < (2 ^ 32 :: int)
   \<and> (\<exists>a. extractSegmentsFromTimestamps (\<lambda>x y. x * y)
          \<lparr>sampleRate = 16000, channelData = [[Num (1/4), Num (1/2), Num 1]]\<rparr>
          [\<lparr>startTime = 0, endTime = 26/10, words = [], s_text = ''105 hello world'', number = 105\<rparr>]
          = Inr [a]
        \<and> length (channelData (buffer a)) = 1
        \<and> length (channelData (buffer a) ! 0) = 41600
        \<and> channelData (buffer a) ! 0 ! 2 = Num 1
        \<and> channelData (buffer a) ! 0 ! 3 = Num 0
        \<and> channelData (buffer a) ! 0 ! 41599 = Num 0)"
proof -
  let ?ab = "\<lparr>sampleRate = 16000, channelData = [[Num (1/4), Num (1/2), Num 1]]\<rparr>"
  let ?d = "\<lparr>startTime = 0, endTime = 26/10, words = [], s_text = ''105 hello world'', number = 105\<rparr>"
  have f: "\<lfloor>(26/10) * real (16000::nat)\<rfloor> = 41600" by simp
  have h1: "0 < numberOfChannels ?ab" by (simp add: numberOfChannels_def)
  have h2: "\<forall>d \<in> set [?d].
        1 \<le> \<lfloor>endTime d * real (sampleRate ?ab)\<rfloor> - \<lfloor>startTime d * real (sampleRate ?ab)\<rfloor>
      \<and> \<lfloor>endTime d * real (sampleRate ?ab)\<rfloor> - \<lfloor>startTime d * real (sampleRate ?ab)\<rfloor> < 2 ^ 32"
    by simp
  from extract_zero_fills [where multiply = "\<lambda>x y. x * y", OF h1 h2] obtain as where
    as: "extractSegmentsFromTimestamps (\<lambda>x y. x * y) ?ab [?d] = Inr as" "length as = 1"
    and n: "length (channelData (buffer (as ! 0))) = 1"
    and l: "int (length (channelData (buffer (as ! 0)) ! 0)) = 41600"
    and z: "\<And>j. j < length (channelData (buffer (as ! 0)) ! 0) \<Longrightarrow>
               (3 \<le> int j \<longrightarrow> channelData (buffer (as ! 0)) ! 0 ! j = Num 0)
             \<and> (int j < 3 \<longrightarrow> channelData (buffer (as ! 0)) ! 0 ! j =
                        [Num (1/4), Num (1/2), Num 1] ! j)"
    by (auto simp: numberOfChannels_def)
  from as(2) obtain a where a: "as = [a]" by (cases as) auto
  from l have l': "length (channelData (buffer (as ! 0)) ! 0) = 41600" by simp
  from z [of 2] z [of 3] z [of 41599] l'
  have "channelData (buffer (as ! 0)) ! 0 ! 2 = Num 1"
    "channelData (buffer (as ! 0)) ! 0 ! 3 = Num 0"
    "channelData (buffer (as ! 0)) ! 0 ! 41599 = Num 0" by simp_all
  with as a n l' h1 f show ?thesis by simp
qed

subsection \<open>The encoder\<close>

lemma setUint8_length [simp]: "length (setUint8 off v view) = length view"
  by (simp add: setUint8_def)

lemma setUint16_length [simp]: "length (setUint16 off v view) = length view"
  by (simp add: setUint16_def Let_def)

lemma setUint32_length [simp]: "length (setUint32 off v view) = length view"
  by (simp add: setUint32_def Let_def)

lemma setInt16_length [simp]: "length (setInt16 off v view) = length view"
  by (simp add: setInt16_def Let_def)

lemma writeString_length [simp]: "length (writeString off s view) = length view"
  by (induction s arbitrary: off view) simp_all

lemma writeSamples_length [simp]: "length (writeSamples off xs view) = length view"
  by (induction xs arbitrary: off view) simp_all

lemma writeHeader_length [simp]: "length (writeHeader len rate view) = length view"
  by (simp add: writeHeader_def Let_def)

lemma setUint8_append:
  "off < length xs \<Longrightarrow> setUint8 off v (xs @ ys) = setUint8 off v xs @ ys"
  by (simp add: setUint8_def list_update_append1)

lemma setUint16_append:
  "off + 1 < length xs \<Longrightarrow> setUint16 off v (xs @ ys) = setUint16 off v xs @ ys"
  by (simp add: setUint16_def Let_def list_update_append1)

lemma setUint32_append:
  "off + 3 < length xs \<Longrightarrow> setUint32 off v (xs @ ys) = setUint32 off v xs @ ys"
  by (simp add: setUint32_def Let_def list_update_append1)

lemma writeString_append:
  "off + length s \<le> length xs \<Longrightarrow> writeString off s (xs @ ys) = writeString off s xs @ ys"
  by (induction s arbitrary: off xs) (simp_all add: setUint8_append)

lemma writeHeader_append:
  "length xs = 44 \<Longrightarrow> writeHeader len rate (xs @ ys) = writeHeader len rate xs @ ys"
  by (simp add: writeHeader_def Let_def setUint8_append setUint32_append setUint16_append)

lemma setInt16_bytes:
  "off + 1 < length view \<Longrightarrow>
   setInt16 off (scaleSample (clampSample x)) view
     = take off view @ sampleBytes x @ drop (off + 2) view"
  by (simp add: setInt16_def sampleBytes_def Let_def upd_conv_take_nth_drop list_update_append
      take_Suc_conv_app_nth nth_append drop_Suc min_def)

lemma sampleBytes_length [simp]: "length (sampleBytes x) = 2"
  by (simp add: sampleBytes_def Let_def)

lemma writeSamples_closed:
  "off + 2 * length xs \<le> length view \<Longrightarrow>
   writeSamples off xs view
     = take off view @ concat (map sampleBytes xs) @ drop (off + 2 * length xs) view"
proof (induction xs arbitrary: off view)
  case Nil
  then show ?case by simp
next
  case (Cons x xs)
  have l: "off + 1 < length view" using Cons.prems by simp
  have "writeSamples (off + 2) xs (setInt16 off (scaleSample (clampSample x)) view)
      = take (off + 2) (setInt16 off (scaleSample (clampSample x)) view) @ concat (map sampleBytes xs)
          @ drop (off + 2 + 2 * length xs) (setInt16 off (scaleSample (clampSample x)) view)"
    using Cons.prems by (intro Cons.IH) simp
  also have "take (off + 2) (setInt16 off (scaleSample (clampSample x)) view)
      = take off view @ sampleBytes x"
    using l by (simp add: setInt16_bytes)
  also have "drop (off + 2 + 2 * length xs) (setInt16 off (scaleSample (clampSample x)) view)
      = drop (off + 2 * length (x # xs)) view"
    using l by (simp add: setInt16_bytes add.commute add.left_commute)
  finally show ?case by simp
qed

lemma bufferToWav_closed:
  assumes "0 < numberOfChannels b"
  shows "bufferToWav b =
     Inr (wavHeader (bufferLength b) (sampleRate b) @ concat (map sampleBytes (channelData b ! 0)))"
proof -
  obtain c cs where c: "channelData b = c # cs"
    using assms by (cases "channelData b") (auto simp: numberOfChannels_def)
  have v: "writeHeader (length c) (sampleRate b) (replicate (44 + length c * 2) 0)
      = wavHeader (length c) (sampleRate b) @ replicate (length c * 2) 0"
    by (simp add: replicate_add writeHeader_append wavHeader_def)
  have "writeSamples 44 c (wavHeader (length c) (sampleRate b) @ replicate (length c * 2) 0)
      = wavHeader (length c) (sampleRate b) @ concat (map sampleBytes c)"
    by (subst writeSamples_closed) (simp_all add: wavHeader_def)
  with v c show ?thesis
    by (simp add: bufferToWav_def Let_def getChannelData_def numberOfChannels_def bufferLength_def)
qed

lemma le16_roundtrip:
  fixes u :: nat
  assumes "u < 65536"
  shows "unat (of_nat (u mod 256) :: byte) + 256 * unat (of_nat (u div 256) :: byte) = u"
proof -
  have "u div 256 < 256" using assms by simp
  then show ?thesis by (simp add: unat_of_nat)
qed

lemma le32_roundtrip:
  fixes u :: nat
  assumes "u < 4294967296"
  shows "unat (of_nat (u mod 256) :: byte) + 256 * unat (of_nat (u div 256 mod 256) :: byte)
       + 65536 * unat (of_nat (u div 65536 mod 256) :: byte)
       + 16777216 * unat (of_nat (u div 16777216) :: byte) = u"
proof -
  have "u div 16777216 < 256" using assms by simp
  then have "unat (of_nat (u mod 256) :: byte) + 256 * unat (of_nat (u div 256 mod 256) :: byte)
       + 65536 * unat (of_nat (u div 65536 mod 256) :: byte)
       + 16777216 * unat (of_nat (u div 16777216) :: byte)
     = u mod 256 + 256 * (u div 256 mod 256) + 65536 * (u div 65536 mod 256)
       + 16777216 * (u div 16777216)"
    by (simp add: unat_of_nat)
  also have "\<dots> = u"
  proof -
    have a: "u div 65536 = u div 256 div 256" by (simp add: div_mult2_eq)
    have b: "u div 16777216 = u div 256 div 256 div 256" by (simp add: div_mult2_eq)
    have 1: "u = u mod 256 + 256 * (u div 256)" by simp
    have 2: "u div 256 = u div 256 mod 256 + 256 * (u div 256 div 256)" by simp
    have 3: "u div 256 div 256 = u div 256 div 256 mod 256 + 256 * (u div 256 div 256 div 256)"
      by simp
    show ?thesis unfolding a b using 1 2 3 by linarith
  qed
  finally show ?thesis .
qed


lemma nth_setUint8:
  "off < length view \<Longrightarrow>
   setUint8 off v view ! k = (if k = off then of_nat (v mod 2 ^ 8) else view ! k)"
  by (auto simp: setUint8_def nth_list_update)

lemma nth_setUint16:
  "off + 1 < length view \<Longrightarrow>
   setUint16 off v view ! k =
     (if k = off then of_nat (v mod 2 ^ 16 mod 256)
      else if k = off + 1 then of_nat (v mod 2 ^ 16 div 256)
      else view ! k)"
  by (auto simp: setUint16_def Let_def nth_list_update)

lemma nth_setUint32:
  "off + 3 < length view \<Longrightarrow>
   setUint32 off v view ! k =
     (if k = off then of_nat (v mod 2 ^ 32 mod 256)
      else if k = off + 1 then of_nat (v mod 2 ^ 32 div 256 mod 256)
      else if k = off + 2 then of_nat (v mod 2 ^ 32 div 65536 mod 256)
      else if k = off + 3 then of_nat (v mod 2 ^ 32 div 16777216)
      else view ! k)"
  by (auto simp: setUint32_def Let_def nth_list_update)

lemmas header_nth = wavHeader_def writeHeader_def Let_def nth_setUint8 nth_setUint16 nth_setUint32

lemma wavHeader_length [simp]: "length (wavHeader n r) = 44"
  by (simp add: wavHeader_def)

lemma upt4: "[0..<4] = [0, 1, 2, 3 :: nat]"
  by (simp add: numeral_eq_Suc)

lemma getString4:
  "getString off 4 v =
     [char_of (unat (v ! off)), char_of (unat (v ! (off + 1))),
      char_of (unat (v ! (off + 2))), char_of (unat (v ! (off + 3)))]"
  by (simp add: getString_def upt4)

lemma header_markers:
  "getString 0 4 (wavHeader n r @ p) = ''RIFF''"
  "getString 8 4 (wavHeader n r @ p) = ''WAVE''"
  "getString 12 4 (wavHeader n r @ p) = ''fmt ''"
  "getString 36 4 (wavHeader n r @ p) = ''data''"
  by (simp_all add: getString4 nth_append header_nth char_of_eq_iff)

lemma header_sizes:
  "getUint32 4 (wavHeader n r @ p) = (36 + n * 2) mod 2 ^ 32"
  "getUint32 40 (wavHeader n r @ p) = (n * 2) mod 2 ^ 32"
proof -
  have b: "wavHeader n r ! 4 = of_nat ((36 + n * 2) mod 4294967296 mod 256)"
    "wavHeader n r ! 5 = of_nat ((36 + n * 2) mod 4294967296 div 256 mod 256)"
    "wavHeader n r ! 6 = of_nat ((36 + n * 2) mod 4294967296 div 65536 mod 256)"
    "wavHeader n r ! 7 = of_nat ((36 + n * 2) mod 4294967296 div 16777216)"
    "wavHeader n r ! 40 = of_nat ((n * 2) mod 4294967296 mod 256)"
    "wavHeader n r ! 41 = of_nat ((n * 2) mod 4294967296 div 256 mod 256)"
    "wavHeader n r ! 42 = of_nat ((n * 2) mod 4294967296 div 65536 mod 256)"
    "wavHeader n r ! 43 = of_nat ((n * 2) mod 4294967296 div 16777216)"
    by (simp_all add: header_nth)
  have "getUint32 4 (wavHeader n r @ p) =
      unat (wavHeader n r ! 4) + 256 * unat (wavHeader n r ! 5)
       + 65536 * unat (wavHeader n r ! 6) + 16777216 * unat (wavHeader n r ! 7)"
    by (simp add: getUint32_def nth_append)
  also have "\<dots> = (36 + n * 2) mod 4294967296"
    unfolding b by (rule le32_roundtrip) simp
  finally show "getUint32 4 (wavHeader n r @ p) = (36 + n * 2) mod 2 ^ 32" by simp
  have "getUint32 40 (wavHeader n r @ p) =
      unat (wavHeader n r ! 40) + 256 * unat (wavHeader n r ! 41)
       + 65536 * unat (wavHeader n r ! 42) + 16777216 * unat (wavHeader n r ! 43)"
    by (simp add: getUint32_def nth_append)
  also have "\<dots> = (n * 2) mod 4294967296"
    unfolding b by (rule le32_roundtrip) simp
  finally show "getUint32 40 (wavHeader n r @ p) = (n * 2) mod 2 ^ 32" by simp
qed

lemma header_format:
  "getUint16 22 (wavHeader n r @ p) = 1"
  "getUint32 28 (wavHeader n r @ p) = (r * 2) mod 2 ^ 32"
  "getUint16 32 (wavHeader n r @ p) = 2"
proof -
  show "getUint16 22 (wavHeader n r @ p) = 1" "getUint16 32 (wavHeader n r @ p) = 2"
    by (simp_all add: getUint16_def nth_append header_nth)
  have b: "wavHeader n r ! 28 = of_nat ((r * 2) mod 4294967296 mod 256)"
    "wavHeader n r ! 29 = of_nat ((r * 2) mod 4294967296 div 256 mod 256)"
    "wavHeader n r ! 30 = of_nat ((r * 2) mod 4294967296 div 65536 mod 256)"
    "wavHeader n r ! 31 = of_nat ((r * 2) mod 4294967296 div 16777216)"
    by (simp_all add: header_nth)
  have "getUint32 28 (wavHeader n r @ p) =
      unat (wavHeader n r ! 28) + 256 * unat (wavHeader n r ! 29)
       + 65536 * unat (wavHeader n r ! 30) + 16777216 * unat (wavHeader n r ! 31)"
    by (simp add: getUint32_def nth_append)
  also have "\<dots> = (r * 2) mod 4294967296"
    unfolding b by (rule le32_roundtrip) simp
  finally show "getUint32 28 (wavHeader n r @ p) = (r * 2) mod 2 ^ 32" by simp
qed

lemma payload_length [simp]: "length (concat (map sampleBytes xs)) = 2 * length xs"
  by (induction xs) simp_all

lemma payload_nth:
  "i < length xs \<Longrightarrow>
   concat (map sampleBytes xs) ! (2 * i) = sampleBytes (xs ! i) ! 0 \<and>
   concat (map sampleBytes xs) ! (2 * i + 1) = sampleBytes (xs ! i) ! 1"
proof (induction xs arbitrary: i)
  case Nil
  then show ?case by simp
next
  case (Cons x xs)
  show ?case
  proof (cases i)
    case 0
    then show ?thesis by (simp add: nth_append)
  next
    case (Suc j)
    with Cons.prems have "j < length xs" by simp
    from Cons.IH [OF this] Suc show ?thesis by (simp add: nth_append)
  qed
qed

lemma bufferLength_channel0:
  "0 < numberOfChannels b \<Longrightarrow> bufferLength b = length (channelData b ! 0)"
  by (cases "channelData b") (simp_all add: numberOfChannels_def bufferLength_def)

lemma int16_roundtrip:
  fixes v :: int
  assumes "- 32768 \<le> v" and "v \<le> 32767"
  shows "(if int (nat (v mod 65536)) \<ge> 32768 then int (nat (v mod 65536)) - 65536
          else int (nat (v mod 65536))) = v"
proof (cases "v < 0")
  case True
  have "(v + 65536) mod 65536 = v + 65536"
    by (rule mod_pos_pos_trivial) (use assms True in simp_all)
  moreover have "(v + 65536) mod 65536 = v mod 65536" by simp
  ultimately have "v mod 65536 = v + 65536" by simp
  then show ?thesis using assms True by simp
next
  case False
  then have "v mod 65536 = v" using assms by simp
  then show ?thesis using assms False by simp
qed

lemma toInteger_bounds:
  "- 32768 \<le> toInteger (scaleSample (clampSample s)) \<and>
   toInteger (scaleSample (clampSample s)) \<le> 32767"
proof (cases s)
  case NaN
  then show ?thesis by simp
next
  case (Num x)
  let ?c = "max (- 1) (min 1 x)"
  have c: "- 1 \<le> ?c" "?c \<le> 1" by simp_all
  show ?thesis
  proof (cases "?c < 0")
    case True
    have "- 32768 \<le> ?c * 32768" using c by linarith
    then have "- 32768 \<le> \<lceil>?c * 32768\<rceil>" by linarith
    moreover have "\<lceil>?c * 32768\<rceil> \<le> 0" using True by (simp add: ceiling_le_iff)
    ultimately show ?thesis using True Num by simp
  next
    case False
    have "0 \<le> ?c * 32767" "?c * 32767 \<le> 32767" using c False by linarith+
    then have "0 \<le> \<lfloor>?c * 32767\<rfloor>" "\<lfloor>?c * 32767\<rfloor> \<le> 32767" by linarith+
    then show ?thesis using False Num by simp
  qed
qed

lemma getInt16_sampleBytes:
  assumes "length h = 44" and "i < length xs"
  shows "getInt16 (44 + 2 * i) (h @ concat (map sampleBytes xs))
           = toInteger (scaleSample (clampSample (xs ! i)))"
proof -
  let ?v = "toInteger (scaleSample (clampSample (xs ! i)))"
  let ?u = "nat (?v mod 65536)"
  have u: "?u < 65536" by simp
  have n0: "(h @ concat (map sampleBytes xs)) ! (44 + 2 * i) = of_nat (?u mod 256)"
    using assms payload_nth [OF assms(2)] by (simp add: nth_append sampleBytes_def Let_def)
  have "(h @ concat (map sampleBytes xs)) ! (44 + 2 * i + 1) = concat (map sampleBytes xs) ! (2 * i + 1)"
    using assms by (simp add: nth_append)
  then have n1: "(h @ concat (map sampleBytes xs)) ! (44 + 2 * i + 1) = of_nat (?u div 256)"
    using payload_nth [OF assms(2)] by (simp add: sampleBytes_def Let_def)
  have "getUint16 (44 + 2 * i) (h @ concat (map sampleBytes xs)) = ?u"
    unfolding getUint16_def n0 n1 by (rule le16_roundtrip [OF u])
  then have "getInt16 (44 + 2 * i) (h @ concat (map sampleBytes xs))
      = (if int ?u \<ge> 32768 then int ?u - 65536 else int ?u)"
    by (simp add: getInt16_def Let_def)
  also have "\<dots> = ?v"
    using toInteger_bounds [of "xs ! i"] by (intro int16_roundtrip) simp_all
  finally show ?thesis .
qed

text \<open>A sample that is \<^verbatim>\<open>NaN\<close> is stored as 0.\<close>

lemma wav_sample_NaN:
  assumes "0 < numberOfChannels b" and "i < bufferLength b" and "channelData b ! 0 ! i = NaN"
  shows "\<exists>bs. bufferToWav b = Inr bs \<and> getInt16 (44 + 2 * i) bs = 0"
proof -
  have i: "i < length (channelData b ! 0)"
    using assms(2) bufferLength_channel0 [OF assms(1)] by simp
  have "getInt16 (44 + 2 * i)
       (wavHeader (bufferLength b) (sampleRate b) @ concat (map sampleBytes (channelData b ! 0)))
     = toInteger (scaleSample (clampSample NaN))"
    using getInt16_sampleBytes [OF wavHeader_length i] assms(3) by simp
  then show ?thesis by (simp add: bufferToWav_closed [OF assms(1)])
qed


text \<open>
  C6, as amended. For a buffer of \<open>n\<close> frames with \<open>36 + 2n < 2 ^ 32\<close>, the file has
  exactly \<open>44 + 2n\<close> bytes, holds \<^verbatim>\<open>RIFF\<close>, \<^verbatim>\<open>WAVE\<close>, \<^verbatim>\<open>fmt \<close> and
  \<^verbatim>\<open>data\<close> at the offsets 0, 8, 12 and 36, and the little-endian 32-bit values at the
  offsets 4 and 40 are \<open>36 + 2n\<close> and \<open>2n\<close>.
\<close>

theorem wav_size_and_markers:
  assumes "0 < numberOfChannels b" and "36 + 2 * bufferLength b < 2 ^ 32"
  shows "\<exists>bs. bufferToWav b = Inr bs \<and> length bs = 44 + 2 * bufferLength b
    \<and> getString 0 4 bs = ''RIFF'' \<and> getString 8 4 bs = ''WAVE''
    \<and> getString 12 4 bs = ''fmt '' \<and> getString 36 4 bs = ''data''
    \<and> getUint32 4 bs = 36 + 2 * bufferLength b \<and> getUint32 40 bs = 2 * bufferLength b"
proof -
  have "(36 + bufferLength b * 2) mod 2 ^ 32 = 36 + 2 * bufferLength b"
    "(bufferLength b * 2) mod 2 ^ 32 = 2 * bufferLength b"
    using assms(2) by simp_all
  then show ?thesis
    using bufferLength_channel0 [OF assms(1)]
    by (simp add: bufferToWav_closed [OF assms(1)] header_markers header_sizes)
qed

text \<open>
  The theorem at a mono buffer of five samples: 54 bytes, the sizes 46 and 10.
\<close>

theorem wav_size_and_markers_witness:
  "0 < numberOfChannels
         \<lparr>sampleRate = 16000, channelData = [[Num (1/2), Num (- 1/2), Num 2, NaN, Num (- 3)]]\<rparr>
   \<and> 36 + 2 * bufferLength
         \<lparr>sampleRate = 16000, channelData = [[Num (1/2), Num (- 1/2), Num 2, NaN, Num (- 3)]]\<rparr>
       < 2 ^ 32
   \<and> (\<exists>bs. bufferToWav
         \<lparr>sampleRate = 16000, channelData = [[Num (1/2), Num (- 1/2), Num 2, NaN, Num (- 3)]]\<rparr>
         = Inr bs
       \<and> length bs = 54 \<and> getString 0 4 bs = ''RIFF'' \<and> getString 8 4 bs = ''WAVE''
       \<and> getString 12 4 bs = ''fmt '' \<and> getString 36 4 bs = ''data''
       \<and> getUint32 4 bs = 46 \<and> getUint32 40 bs = 10)"
  using wav_size_and_markers [of
      "\<lparr>sampleRate = 16000, channelData = [[Num (1/2), Num (- 1/2), Num 2, NaN, Num (- 3)]]\<rparr>"]
  by (simp add: numberOfChannels_def bufferLength_def)

text \<open>
  C6 as stated fails where \<open>36 + 2n\<close> does not fit the 32-bit field: for a mono buffer of
  \<open>2 ^ 31 - 18\<close> frames, \<open>36 + 2n = 2 ^ 32\<close> and the value stored at offset 4 is 0.
\<close>

theorem wav_size_field_wraps:
  "bufferLength \<lparr>sampleRate = 16000, channelData = [replicate 2147483630 (Num 0)]\<rparr> = 2147483630
   \<and> (case bufferToWav \<lparr>sampleRate = 16000, channelData = [replicate 2147483630 (Num 0)]\<rparr> of
         Inl e \<Rightarrow> False
       | Inr bs \<Rightarrow> length bs = 44 + 2 * 2147483630 \<and> getUint32 4 bs = 0)
   \<and> 36 + 2 * 2147483630 = (4294967296 :: nat)"
proof -
  let ?b = "\<lparr>sampleRate = 16000, channelData = [replicate 2147483630 (Num 0)]\<rparr>"
  have n: "0 < numberOfChannels ?b" by (simp add: numberOfChannels_def)
  have l: "bufferLength ?b = 2147483630" by (simp add: bufferLength_def)
  let ?p = "concat (map sampleBytes (channelData ?b ! 0))"
  have p: "length ?p = 2 * 2147483630" by (simp only: payload_length) simp
  have c: "bufferToWav ?b = Inr (wavHeader 2147483630 16000 @ ?p)"
    using bufferToWav_closed [OF n] l by simp
  have "getUint32 4 (wavHeader 2147483630 16000 @ ?p) = 0"
    by (simp only: header_sizes) simp
  with p l show ?thesis by (simp only: c) simp
qed

text \<open>
  C10. Whatever the number of channels of the buffer, the file declares one channel at
  offset 22, the byte rate \<open>sampleRate * 2\<close> at offset 28 and the block align 2 at offset
  32; the bytes from offset 44 on are those of the samples of channel 0, and the file is
  the very file of the mono buffer that holds channel 0 alone. (The sample rate of an
  \<^verbatim>\<open>AudioBuffer\<close> lies in the range the platform supports, far below \<open>2 ^ 31\<close>.)
\<close>

theorem wav_declares_mono:
  assumes "0 < numberOfChannels b" and "sampleRate b < 2 ^ 31"
  shows "\<exists>bs. bufferToWav b = Inr bs \<and> getUint16 22 bs = 1
    \<and> getUint32 28 bs = sampleRate b * 2 \<and> getUint16 32 bs = 2
    \<and> length bs = 44 + 2 * length (channelData b ! 0)
    \<and> drop 44 bs = concat (map sampleBytes (channelData b ! 0))
    \<and> bufferToWav (b\<lparr>channelData := [channelData b ! 0]\<rparr>) = Inr bs"
proof -
  have r: "(sampleRate b * 2) mod 2 ^ 32 = sampleRate b * 2" using assms(2) by simp
  have m: "0 < numberOfChannels (b\<lparr>channelData := [channelData b ! 0]\<rparr>)"
    by (simp add: numberOfChannels_def)
  have l: "bufferLength (b\<lparr>channelData := [channelData b ! 0]\<rparr>) = bufferLength b"
    using bufferLength_channel0 [OF assms(1)] by (simp add: bufferLength_def)
  show ?thesis
    using r l
    by (simp add: bufferToWav_closed [OF assms(1)] bufferToWav_closed [OF m] header_format)
qed

text \<open>
  The theorem at a stereo buffer of two frames at 44.1 kHz: the second channel leaves no
  trace in the file.
\<close>

theorem wav_declares_mono_witness:
  "0 < numberOfChannels
         \<lparr>sampleRate = 44100, channelData = [[Num (1/2), Num (- 1)], [Num (1/4), Num 1]]\<rparr>
   \<and> sampleRate
         \<lparr>sampleRate = 44100, channelData = [[Num (1/2), Num (- 1)], [Num (1/4), Num 1]]\<rparr>
       < 2 ^ 31
   \<and> (\<exists>bs. bufferToWav
         \<lparr>sampleRate = 44100, channelData = [[Num (1/2), Num (- 1)], [Num (1/4), Num 1]]\<rparr>
         = Inr bs
       \<and> getUint16 22 bs = 1 \<and> getUint32 28 bs = 88200 \<and> getUint16 32 bs = 2
       \<and> length bs = 48
       \<and> drop 44 bs = sampleBytes (Num (1/2)) @ sampleBytes (Num (- 1))
       \<and> bufferToWav \<lparr>sampleRate = 44100, channelData = [[Num (1/2), Num (- 1)]]\<rparr> = Inr bs)"
  using wav_declares_mono [of
      "\<lparr>sampleRate = 44100, channelData = [[Num (1/2), Num (- 1)], [Num (1/4), Num 1]]\<rparr>"]
  by (simp add: numberOfChannels_def)

text \<open>
  C7. The 16-bit little-endian value stored for the sample \<open>x\<close> at index \<open>i\<close> of
  channel 0, at offset \<open>44 + 2i\<close>, is \<open>x\<close> clamped to \<open>[-1, 1]\<close> and then multiplied
  by 32768 when the clamped value is negative and by 32767 otherwise; \<^verbatim>\<open>setInt16\<close> drops
  the fraction of the product (towards zero). The value always fits 16 bits.
\<close>

theorem wav_sample_conversion:
  assumes "0 < numberOfChannels b" and "i < bufferLength b"
    and "channelData b ! 0 ! i = Num x"
  shows "\<exists>bs. bufferToWav b = Inr bs
    \<and> - 32768 \<le> getInt16 (44 + 2 * i) bs \<and> getInt16 (44 + 2 * i) bs \<le> 32767
    \<and> getInt16 (44 + 2 * i) bs =
        (if max (- 1) (min 1 x) < 0 then \<lceil>max (- 1) (min 1 x) * 32768\<rceil>
         else \<lfloor>max (- 1) (min 1 x) * 32767\<rfloor>)"
proof -
  have i: "i < length (channelData b ! 0)"
    using assms(2) bufferLength_channel0 [OF assms(1)] by simp
  have g: "getInt16 (44 + 2 * i)
       (wavHeader (bufferLength b) (sampleRate b) @ concat (map sampleBytes (channelData b ! 0)))
     = toInteger (scaleSample (clampSample (Num x)))"
    using getInt16_sampleBytes [OF wavHeader_length i] assms(3) by simp
  have "toInteger (scaleSample (clampSample (Num x))) =
        (if max (- 1) (min 1 x) < 0 then \<lceil>max (- 1) (min 1 x) * 32768\<rceil>
         else \<lfloor>max (- 1) (min 1 x) * 32767\<rfloor>)"
  proof (cases "max (- 1) (min 1 x) < 0")
    case True
    then have "max (- 1) (min 1 x) * 32768 < 0" by linarith
    with True show ?thesis by simp
  next
    case False
    then have "\<not> max (- 1) (min 1 x) * 32767 < 0" by linarith
    with False show ?thesis by simp
  qed
  with g toInteger_bounds [of "Num x"] show ?thesis
    by (simp only: bufferToWav_closed [OF assms(1)]) auto
qed

text \<open>
  The theorem at the second sample, \<open>-0.5\<close>, of a mono buffer: the value stored at
  offset 46 is \<open>-16384\<close>.
\<close>

theorem wav_sample_conversion_witness:
  "0 < numberOfChannels
         \<lparr>sampleRate = 16000, channelData = [[Num (1/2), Num (- 1/2), Num 2, NaN, Num (- 3)]]\<rparr>
   \<and> 1 < bufferLength
         \<lparr>sampleRate = 16000, channelData = [[Num (1/2), Num (- 1/2), Num 2, NaN, Num (- 3)]]\<rparr>
   \<and> channelData
         \<lparr>sampleRate = 16000, channelData = [[Num (1/2), Num (- 1/2), Num 2, NaN, Num (- 3)]]\<rparr>
         ! 0 ! 1 = Num (- 1/2)
   \<and> (\<exists>bs. bufferToWav
         \<lparr>sampleRate = 16000, channelData = [[Num (1/2), Num (- 1/2), Num 2, NaN, Num (- 3)]]\<rparr>
         = Inr bs
       \<and> getInt16 46 bs = - 16384)"
  using wav_sample_conversion [of
      "\<lparr>sampleRate = 16000, channelData = [[Num (1/2), Num (- 1/2), Num 2, NaN, Num (- 3)]]\<rparr>"
      1 "- 1/2"]
  by (auto simp: numberOfChannels_def bufferLength_def)

subsection \<open>Downmixing\<close>

lemma typedGet_nth: "i < length c \<Longrightarrow> typedGet c (int i) = c ! i"
  by (simp add: typedGet_def)

lemma foldl_addS_NaN: "foldl (\<lambda>sum ch. addS sum (f ch)) NaN cs = NaN"
  by (induction cs) simp_all

lemma foldl_addS:
  "foldl (\<lambda>sum ch. addS sum (f ch)) (Num a) cs =
     (if list_all (\<lambda>c. isNum (f c)) cs then Num (a + sum_list (map (\<lambda>c. sampleValue (f c)) cs))
      else NaN)"
proof (induction cs arbitrary: a)
  case Nil
  then show ?case by simp
next
  case (Cons c cs)
  show ?case
  proof (cases "f c")
    case (Num x)
    then show ?thesis using Cons.IH [of "a + x"] by (simp add: add.assoc)
  next
    case NaN
    then show ?thesis by (simp add: foldl_addS_NaN)
  qed
qed

lemma monoData_is_mean:
  assumes "1 < numberOfChannels b"
    and "\<forall>c \<in> set (channelData b). length c = bufferLength b"
    and "i < bufferLength b"
  shows "monoData b ! i = channelMean b i"
proof -
  have eq: "foldl (\<lambda>sum ch. addS sum (typedGet ch (int i))) (Num 0) (channelData b)
      = foldl (\<lambda>sum ch. addS sum (ch ! i)) (Num 0) (channelData b)"
    using assms(2,3) by (intro foldl_cong) (simp_all add: typedGet_nth)
  have "monoData b ! i =
      divS (foldl (\<lambda>sum ch. addS sum (ch ! i)) (Num 0) (channelData b)) (numberOfChannels b)"
    using assms(1,3) eq by (simp add: monoData_def)
  then show ?thesis by (simp add: foldl_addS channelMean_def)
qed

lemma monoData_mono_unchanged:
  assumes "numberOfChannels b = 1"
  shows "monoData b = channelData b ! 0"
proof -
  obtain c where c: "channelData b = [c]"
    using assms by (cases "channelData b") (auto simp: numberOfChannels_def)
  have "map (\<lambda>i. typedGet c (int i)) [0..<length c] = map (\<lambda>i. c ! i) [0..<length c]"
    by (intro map_cong) (simp_all add: typedGet_nth)
  then show ?thesis using assms c by (simp add: monoData_def bufferLength_def map_nth)
qed

lemma resampleTo16kMono_mono_unchanged:
  "numberOfChannels b = 1 \<Longrightarrow> resampleTo16kMono_monoBuffer b = Inr b"
  by (simp add: resampleTo16kMono_monoBuffer_def)

lemma resampleTo16kMono_stereo_mean:
  assumes "numberOfChannels b = 2"
    and "\<forall>c \<in> set (channelData b). length c = bufferLength b"
    and "1 \<le> bufferLength b" and "bufferLength b < 2 ^ 32"
  shows "\<exists>m. resampleTo16kMono_monoBuffer b = Inr m \<and> numberOfChannels m = 1
     \<and> sampleRate m = sampleRate b \<and> bufferLength m = bufferLength b
     \<and> (\<forall>i < bufferLength b. channelData m ! 0 ! i = channelMean b i)"
proof -
  obtain l r where c: "channelData b = [l, r]"
    using assms(1) by (cases "channelData b"; cases "tl (channelData b)") (auto simp: numberOfChannels_def)
  have len: "length l = bufferLength b" "length r = bufferLength b" using assms(2) c by auto
  have cb: "createBuffer 1 (int (bufferLength b)) (sampleRate b)
      = Inr \<lparr>sampleRate = sampleRate b, channelData = [replicate (bufferLength b) (Num 0)]\<rparr>"
    using assms(3,4) by (simp add: createBuffer_def Let_def nat_mod_distrib)
  have m: "resampleTo16kMono_monoBuffer b
     = Inr \<lparr>sampleRate = sampleRate b,
            channelData = [map (\<lambda>i. divS (addS (typedGet l (int i)) (typedGet r (int i))) 2)
                               [0..<bufferLength b]]\<rparr>"
    using assms(1) c cb
    by (simp add: resampleTo16kMono_monoBuffer_def getChannelData_def numberOfChannels_def)
  have "divS (addS (typedGet l (int i)) (typedGet r (int i))) 2 = channelMean b i"
    if "i < bufferLength b" for i
    using that len c
    by (cases "l ! i"; cases "r ! i") (simp_all add: typedGet_nth channelMean_def numberOfChannels_def)
  then show ?thesis
    by (simp add: m numberOfChannels_def bufferLength_def)
qed

text \<open>
  C8 holds for \<^verbatim>\<open>convertAudioTo16kMono\<close> (\<open>monoData_is_mean\<close>,
  \<open>monoData_mono_unchanged\<close>) and for \<^verbatim>\<open>resampleTo16kMono\<close> on mono and stereo input
  (\<open>resampleTo16kMono_mono_unchanged\<close>, \<open>resampleTo16kMono_stereo_mean\<close>). On an input of
  three channels \<^verbatim>\<open>resampleTo16kMono\<close> averages channels 0 and 1 only: for the frames
  \<open>(1, 1, 4)\<close> and \<open>(1, 3, 5)\<close> it yields 1 and 2, where the mean over all channels is 2
  and 3, the values that \<^verbatim>\<open>convertAudioTo16kMono\<close> computes.
\<close>

theorem resampleTo16kMono_ignores_third_channel:
  "resampleTo16kMono_monoBuffer
     \<lparr>sampleRate = 44100, channelData = [[Num 1, Num 1], [Num 1, Num 3], [Num 4, Num 5]]\<rparr>
     = Inr \<lparr>sampleRate = 44100, channelData = [[Num 1, Num 2]]\<rparr>
   \<and> map (channelMean
           \<lparr>sampleRate = 44100, channelData = [[Num 1, Num 1], [Num 1, Num 3], [Num 4, Num 5]]\<rparr>)
        [0, 1] = [Num 2, Num 3]
   \<and> monoData
        \<lparr>sampleRate = 44100, channelData = [[Num 1, Num 1], [Num 1, Num 3], [Num 4, Num 5]]\<rparr>
      = [Num 2, Num 3]"
  by (simp add: resampleTo16kMono_monoBuffer_def createBuffer_def getChannelData_def
      numberOfChannels_def bufferLength_def typedGet_def channelMean_def monoData_def Let_def
      upt_rec [of 0 2] upt_rec [of 1 2] upt_rec [of 2 2])

end
